theory Spec2Isabelle
  imports Complex_Main
begin

section \<open>Data model of \<^verbatim>\<open>textgrid.py\<close>\<close>

text \<open>
  Times are Python floats in the source. A float is modelled by its exact value, a
  rational (the floats that are infinite or not a number are left out). Comparisons of
  floats are comparisons of their values, so \<open><\<close> on rationals is the source's \<^verbatim>\<open><\<close>.
  The operations that round are not exact on floats and are parameters of the model, about
  which nothing is assumed: \<open>pyfloat\<close> for the builtin \<^verbatim>\<open>float\<close> on a string (\<open>None\<close> where
  it raises \<^verbatim>\<open>ValueError\<close>), \<open>pyround\<close> for \<^verbatim>\<open>round(x, 4)\<close>, and \<open>fadd\<close>, \<open>fsub\<close>, \<open>fdiv\<close>
  for \<^verbatim>\<open>+\<close>, \<^verbatim>\<open>-\<close> and \<^verbatim>\<open>/\<close> on floats.
\<close>

datatype error = IndexError | ValueError

text \<open>
  The dataclass \<^verbatim>\<open>CtmInterval\<close>. The field \<^verbatim>\<open>utterance\<close> is optional because
  \<^verbatim>\<open>parse_from_word\<close> builds intervals whose utterance is still \<^verbatim>\<open>None\<close>.
\<close>

record CtmInterval =
  ctm_begin :: rat
  ctm_end :: rat
  ctm_label :: string
  utterance :: "string option"

section \<open>The interval parser \<^verbatim>\<open>process_ctm_line\<close>\<close>

text \<open>Python's \<^verbatim>\<open>str.split(sep)\<close> for a separator of one character: every occurrence
  of the separator cuts, empty fields are kept, and the result is never empty.\<close>

fun split_on :: "char \<Rightarrow> string \<Rightarrow> string list" where
  "split_on c [] = [[]]"
| "split_on c (x # xs) =
     (if x = c then [] # split_on c xs
      else (let r = split_on c xs in (x # hd r) # tl r))"

text \<open>\<^verbatim>\<open>xs[i]\<close> for a non-negative index: out of range raises \<^verbatim>\<open>IndexError\<close>.\<close>

definition index :: "'a list \<Rightarrow> nat \<Rightarrow> error + 'a" where
  "index xs i = (if i < length xs then Inr (xs ! i) else Inl IndexError)"

text \<open>
  \<^verbatim>\<open>process_ctm_line\<close>, with \<^verbatim>\<open>float\<close>, \<^verbatim>\<open>round(x, 4)\<close> and \<^verbatim>\<open>+\<close> as parameters. The
  statements run in the source's order, so the first failing one decides the error.
\<close>

definition process_ctm_line ::
  "(string \<Rightarrow> rat option) \<Rightarrow> (rat \<Rightarrow> rat) \<Rightarrow> (rat \<Rightarrow> rat \<Rightarrow> rat) \<Rightarrow> string \<Rightarrow>
   error + CtmInterval" where
  "process_ctm_line pyfloat pyround fadd line =
     (let fields = split_on CHR '' '' line in
      (case index fields 0 of Inl err \<Rightarrow> Inl err | Inr utt \<Rightarrow>
      (case index fields 2 of Inl err \<Rightarrow> Inl err | Inr f2 \<Rightarrow>
      (case pyfloat f2 of None \<Rightarrow> Inl ValueError | Some x \<Rightarrow>
      (let begin = pyround x in
      (case index fields 3 of Inl err \<Rightarrow> Inl err | Inr f3 \<Rightarrow>
      (case pyfloat f3 of None \<Rightarrow> Inl ValueError | Some duration \<Rightarrow>
      (let end = pyround (fadd begin duration) in
      (case index fields 4 of Inl err \<Rightarrow> Inl err | Inr label \<Rightarrow>
         Inr \<lparr>ctm_begin = begin, ctm_end = end, ctm_label = label,
              utterance = Some utt\<rparr>)))))))))"

section \<open>Exact arithmetic for examples\<close>

text \<open>
  The examples that need these operations run the model on numbers that are binary
  fractions and multiples of 1/10000, such as 2, 0.5, 2.5 and 0.125. On such numbers the float operations of Python
  are exact: \<^verbatim>\<open>float\<close> of a decimal literal gives its value, \<^verbatim>\<open>round(x, 4)\<close> gives \<open>x\<close>,
  and sums, differences and quotients that are again such numbers are computed without
  error. Those examples therefore put the exact operations below, and \<open>+\<close>, \<open>-\<close> and \<open>/\<close> on
  rationals, in the place of the parameters. Away from such numbers these are not the
  operations of Python, and nothing is proved from them there.
\<close>

text \<open>Rounding to the nearest multiple of 1/10000, a tie going to the even one.\<close>

definition round_half_even :: "rat \<Rightarrow> int" where
  "round_half_even x =
     (let f = \<lfloor>x\<rfloor>; d = x - of_int f
      in if d < 1 / 2 then f else if 1 / 2 < d then f + 1
         else if even f then f else f + 1)"

definition exact_round4 :: "rat \<Rightarrow> rat" where
  "exact_round4 x = of_int (round_half_even (x * 10000)) / 10000"

text \<open>The value of a plain decimal literal: an optional sign, digits, and at most one
  point with a digit on at least one side of it.\<close>

definition digit_val :: "char \<Rightarrow> nat option" where
  "digit_val c =
     (let n = of_char c :: nat in if 48 \<le> n \<and> n \<le> 57 then Some (n - 48) else None)"

fun digits_val :: "nat \<Rightarrow> string \<Rightarrow> nat option" where
  "digits_val acc [] = Some acc"
| "digits_val acc (c # cs) =
     (case digit_val c of None \<Rightarrow> None | Some d \<Rightarrow> digits_val (10 * acc + d) cs)"

definition unsigned_decimal :: "string \<Rightarrow> rat option" where
  "unsigned_decimal s =
     (case split_on CHR ''.'' s of
        [ip] \<Rightarrow> (if ip = [] then None else map_option of_nat (digits_val 0 ip))
      | [ip, fp] \<Rightarrow>
          (if ip = [] \<and> fp = [] then None
           else (case digits_val 0 (ip @ fp) of None \<Rightarrow> None
                 | Some n \<Rightarrow> Some (of_nat n / 10 ^ length fp)))
      | _ \<Rightarrow> None)"

definition decimal_value :: "string \<Rightarrow> rat option" where
  "decimal_value s =
     (case s of
        c # cs \<Rightarrow>
          (if c = CHR ''-'' then map_option uminus (unsigned_decimal cs)
           else if c = CHR ''+'' then unsigned_decimal cs
           else unsigned_decimal s)
      | [] \<Rightarrow> None)"

section \<open>The lexical splitter: \<^verbatim>\<open>split_clitics\<close>, \<^verbatim>\<open>_lookup\<close>, \<^verbatim>\<open>to_int\<close>\<close>

text \<open>
  The part of \<^verbatim>\<open>DictionaryData\<close> that word reconstruction reads. Marker and punctuation
  sets are strings, iterated character by character; \<^verbatim>\<open>words_mapping\<close> is a dict from
  words to ids.
\<close>

record DictionaryData =
  words_mapping :: "string \<rightharpoonup> int"
  punctuation :: string
  clitic_set :: "string set"
  clitic_markers :: string
  compound_markers :: string
  oov_int :: int

text \<open>\<^verbatim>\<open>any(x in item for x in markers)\<close>.\<close>

definition any_in :: "string \<Rightarrow> string \<Rightarrow> bool" where
  "any_in markers item = list_ex (\<lambda>x. x \<in> set item) markers"

text \<open>
  The bracket expression \<^verbatim>\<open>rf"[{markers}]"\<close>, built from the marker string without
  escaping. A circumflex at the head of the string negates the set, as the \<^verbatim>\<open>re\<close> module
  reads it; every other character is taken for itself. That is how \<^verbatim>\<open>re\<close> reads the
  expression when the string holds no closing bracket, no backslash and no hyphen between
  two characters; strings that do are not covered (\<^verbatim>\<open>re\<close> reads a range or an escape, or
  rejects the expression), nor is the string that is just a circumflex.
\<close>

definition class_matches :: "string \<Rightarrow> char \<Rightarrow> bool" where
  "class_matches markers c =
     (case markers of
        m # rest \<Rightarrow> (if m = CHR ''^'' then c \<notin> set rest else c \<in> set markers)
      | [] \<Rightarrow> False)"

text \<open>The marker strings in which no character has a special meaning: the bracket
  expression then matches exactly the characters of the string.\<close>

definition regex_plain :: "string \<Rightarrow> bool" where
  "regex_plain markers =
     (take 1 markers \<noteq> ''^'' \<and> CHR '']'' \<notin> set markers \<and> CHR 0x5C \<notin> set markers
      \<and> CHR ''-'' \<notin> set (butlast (tl markers)))"

text \<open>\<^verbatim>\<open>re.split(rf"[{markers}]", item)\<close>: the word is cut at every character that the
  expression matches, and empty pieces are kept.\<close>

fun re_split :: "string \<Rightarrow> string \<Rightarrow> string list" where
  "re_split markers [] = [[]]"
| "re_split markers (x # xs) =
     (if class_matches markers x then [] # re_split markers xs
      else (let r = re_split markers xs in (x # hd r) # tl r))"

text \<open>The same with \<^verbatim>\<open>maxsplit=1\<close>, unpacked into \<^verbatim>\<open>initial, final\<close>: the piece before the
  first match and the piece after it. (On a word without a match the unpacking raises
  \<^verbatim>\<open>ValueError\<close> in the source; with plain markers the test before the call excludes
  that, and the model then gives the word and the empty string.)\<close>

definition re_split1 :: "string \<Rightarrow> string \<Rightarrow> string \<times> string" where
  "re_split1 markers item =
     (let initial = takeWhile (\<lambda>c. \<not> class_matches markers c) item
      in (initial, drop (Suc (length initial)) item))"

text \<open>The loop \<^verbatim>\<open>for clitic in clitic_markers\<close> of \<^verbatim>\<open>split_clitics\<close>: the first marker
  that gives a known clitic returns; \<open>None\<close> when the loop ends without returning.\<close>

fun attach_clitic :: "string \<Rightarrow> string list \<Rightarrow> string set \<Rightarrow> string \<Rightarrow> string list option" where
  "attach_clitic initial final cset [] = None"
| "attach_clitic initial final cset (clitic # rest) =
     (if initial @ [clitic] \<in> cset then Some ((initial @ [clitic]) # final)
      else if clitic # hd final \<in> cset then Some (initial # (clitic # hd final) # tl final)
      else attach_clitic initial final cset rest)"

text \<open>
  \<^verbatim>\<open>split_clitics\<close>. In the branch of the compound markers the source calls itself on every
  piece that holds a clitic marker. With plain markers a piece is shorter than the word
  (lemma \<open>re_split_shorter\<close>). Otherwise the expression can fail to cut the word, the one
  piece is the word itself and the source calls itself without end; the model calls itself
  on shorter pieces only and keeps such a piece as it is.
\<close>

function split_clitics ::
  "string \<Rightarrow> (string \<rightharpoonup> int) \<Rightarrow> string set \<Rightarrow> string \<Rightarrow> string \<Rightarrow> string list" where
  "split_clitics item wm cset cm pm =
     (if item \<in> dom wm then [item]
      else if any_in pm item then
        (if any_in cm item then
           concat (map (\<lambda>seg. if any_in cm seg \<and> length seg < length item
                              then split_clitics seg wm cset cm pm else [seg])
                       (re_split pm item))
         else re_split pm item)
      else if list_ex (\<lambda>x. x \<in> set item \<and> last item \<noteq> x \<and> hd item \<noteq> x) cm then
        (case attach_clitic (fst (re_split1 cm item))
                (if any_in cm (snd (re_split1 cm item))
                 then split_clitics (snd (re_split1 cm item)) wm cset cm pm
                 else [snd (re_split1 cm item)])
                cset cm of
           Some r \<Rightarrow> r
         | None \<Rightarrow> [item])
      else [item])"
  by pat_completeness auto
termination
proof (relation "measure (\<lambda>(item, wm, cset, cm, pm). length item)")
  show "wf (measure (\<lambda>(item, wm, cset, cm, pm). length item))" by simp
next
  fix item :: string and wm :: "string \<rightharpoonup> int" and cset :: "string set"
    and cm pm seg :: string
  assume "any_in cm seg \<and> length seg < length item"
  then show "((seg, wm, cset, cm, pm), (item, wm, cset, cm, pm))
      \<in> measure (\<lambda>(item, wm, cset, cm, pm). length item)"
    by simp
next
  fix item :: string and wm :: "string \<rightharpoonup> int" and cset :: "string set"
    and cm pm :: string
  assume "list_ex (\<lambda>x. x \<in> set item \<and> last item \<noteq> x \<and> hd item \<noteq> x) cm"
  then have "item \<noteq> []" by (auto simp: list_ex_iff)
  then show "((snd (re_split1 cm item), wm, cset, cm, pm), (item, wm, cset, cm, pm))
      \<in> measure (\<lambda>(item, wm, cset, cm, pm). length item)"
    by (simp add: re_split1_def Let_def)
qed

declare split_clitics.simps [simp del]

text \<open>
  \<^verbatim>\<open>_lookup\<close>. The helper \<^verbatim>\<open>sanitize\<close> is imported from the module
  \<^verbatim>\<open>montreal_forced_aligner.dictionary\<close> and is the parameter \<open>sanitize\<close>.
\<close>

definition lookup ::
  "(string \<Rightarrow> string \<Rightarrow> string \<Rightarrow> string) \<Rightarrow> string \<Rightarrow> (string \<rightharpoonup> int) \<Rightarrow> string \<Rightarrow>
   string set \<Rightarrow> string \<Rightarrow> string \<Rightarrow> string list" where
  "lookup sanitize item wm punct cset cm pm =
     (if item \<in> dom wm then [item]
      else (let sanitized = sanitize item punct cm in
        if sanitized \<in> dom wm then [sanitized]
        else (let split = split_clitics sanitized wm cset cm pm;
                  oov_count = length (filter (\<lambda>x. x \<notin> dom wm) split)
              in if oov_count < length split then split else [sanitized])))"

text \<open>The loop of \<^verbatim>\<open>to_int\<close> over the sub-words: empty ones are skipped, unknown ones
  get the reserved id.\<close>

fun ids_of :: "(string \<rightharpoonup> int) \<Rightarrow> int \<Rightarrow> string list \<Rightarrow> int list" where
  "ids_of wm oov [] = []"
| "ids_of wm oov (item # rest) =
     (if item = [] then ids_of wm oov rest
      else (case wm item of None \<Rightarrow> oov # ids_of wm oov rest
            | Some n \<Rightarrow> n # ids_of wm oov rest))"

definition to_int ::
  "(string \<Rightarrow> string \<Rightarrow> string \<Rightarrow> string) \<Rightarrow> string \<Rightarrow> (string \<rightharpoonup> int) \<Rightarrow> string \<Rightarrow>
   string set \<Rightarrow> string \<Rightarrow> string \<Rightarrow> int \<Rightarrow> int list" where
  "to_int sanitize item wm punct cset cm pm oov =
     (if item = [] then []
      else ids_of wm oov (lookup sanitize item wm punct cset cm pm))"

text \<open>The characters of a word that are neither clitic nor compound markers.\<close>

definition content :: "string \<Rightarrow> string \<Rightarrow> string \<Rightarrow> string" where
  "content cm pm s = filter (\<lambda>c. c \<notin> set cm \<and> c \<notin> set pm) s"

section \<open>The word reconstructor \<^verbatim>\<open>parse_from_word\<close>\<close>

text \<open>
  The inner loop \<^verbatim>\<open>for i in ints\<close>. The state is \<^verbatim>\<open>(cur_ind, utterance, b, e)\<close>.
  \<^verbatim>\<open>ctm_labels[cur_ind]\<close> raises \<^verbatim>\<open>IndexError\<close> past the end of the stream, and the
  builtin \<^verbatim>\<open>int\<close>, the parameter \<open>pyint\<close>, raises \<^verbatim>\<open>ValueError\<close> where it gives
  \<open>None\<close>.
\<close>

fun consume_ints ::
  "(string \<Rightarrow> int option) \<Rightarrow> CtmInterval list \<Rightarrow> int list \<Rightarrow>
   nat \<times> string option \<times> rat \<times> rat \<Rightarrow> error + (nat \<times> string option \<times> rat \<times> rat)" where
  "consume_ints pyint ctm_labels [] st = Inr st"
| "consume_ints pyint ctm_labels (i # ints) (cur_ind, utt, b, e) =
     (case index ctm_labels cur_ind of Inl err \<Rightarrow> Inl err | Inr cur \<Rightarrow>
      (let utt' = (if utt = None then utterance cur else utt) in
       (case pyint (ctm_label cur) of None \<Rightarrow> Inl ValueError | Some n \<Rightarrow>
          (if i = n then
             consume_ints pyint ctm_labels ints
               (cur_ind + 1, utt',
                if ctm_begin cur < b then ctm_begin cur else b,
                if e < ctm_end cur then ctm_end cur else e)
           else consume_ints pyint ctm_labels ints (cur_ind + 1, utt', b, e)))))"

text \<open>The call \<^verbatim>\<open>to_int(word, words_mapping, punctuation, clitic_set, clitic_markers,
  compound_markers, oov_int)\<close> on the fields of the dictionary data.\<close>

definition word_ints ::
  "(string \<Rightarrow> string \<Rightarrow> string \<Rightarrow> string) \<Rightarrow> DictionaryData \<Rightarrow> string \<Rightarrow> int list" where
  "word_ints sanitize dd word =
     to_int sanitize word (words_mapping dd) (punctuation dd) (clitic_set dd)
       (clitic_markers dd) (compound_markers dd) (oov_int dd)"

text \<open>The outer loop \<^verbatim>\<open>for word in text\<close>, with the state \<^verbatim>\<open>(cur_ind, utterance)\<close>;
  the bounds start at the sentinels \<^verbatim>\<open>1000000\<close> and \<^verbatim>\<open>-1\<close> for every word.\<close>

fun words_loop ::
  "(string \<Rightarrow> int option) \<Rightarrow> (string \<Rightarrow> string \<Rightarrow> string \<Rightarrow> string) \<Rightarrow> DictionaryData \<Rightarrow>
   CtmInterval list \<Rightarrow> string list \<Rightarrow> nat \<times> string option \<Rightarrow> error + CtmInterval list" where
  "words_loop pyint sanitize dd ctm_labels [] st = Inr []"
| "words_loop pyint sanitize dd ctm_labels (word # text) (cur_ind, utt) =
     (let ints = word_ints sanitize dd word in
      case consume_ints pyint ctm_labels ints (cur_ind, utt, 1000000, - 1) of
        Inl err \<Rightarrow> Inl err
      | Inr (cur_ind', utt', b, e) \<Rightarrow>
          (case words_loop pyint sanitize dd ctm_labels text (cur_ind', utt') of
             Inl err \<Rightarrow> Inl err
           | Inr actual_labels \<Rightarrow>
               Inr (\<lparr>ctm_begin = b, ctm_end = e, ctm_label = word, utterance = utt'\<rparr>
                    # actual_labels)))"

definition parse_from_word ::
  "(string \<Rightarrow> int option) \<Rightarrow> (string \<Rightarrow> string \<Rightarrow> string \<Rightarrow> string) \<Rightarrow>
   CtmInterval list \<Rightarrow> string list \<Rightarrow> DictionaryData \<Rightarrow> error + CtmInterval list" where
  "parse_from_word pyint sanitize ctm_labels text dd =
     words_loop pyint sanitize dd ctm_labels text (0, None)"

text \<open>The restriction of \<^verbatim>\<open>int\<close> to plain decimal literals with an optional sign, for
  concrete streams.\<close>

definition decimal_int :: "string \<Rightarrow> int option" where
  "decimal_int s =
     (case s of
        c # cs \<Rightarrow>
          (if c = CHR ''-'' then (if cs = [] then None else map_option (\<lambda>n. - int n) (digits_val 0 cs))
           else if c = CHR ''+'' then (if cs = [] then None else map_option int (digits_val 0 cs))
           else map_option int (digits_val 0 s))
      | [] \<Rightarrow> None)"

text \<open>Notions for stating what a reconstructed word interval is built from.\<close>

definition cursor_at ::
  "(string \<Rightarrow> string \<Rightarrow> string \<Rightarrow> string) \<Rightarrow> DictionaryData \<Rightarrow> string list \<Rightarrow> nat \<Rightarrow> nat" where
  "cursor_at sanitize dd text j = sum_list (map (\<lambda>w. length (word_ints sanitize dd w)) (take j text))"

definition consumed_entries ::
  "(string \<Rightarrow> string \<Rightarrow> string \<Rightarrow> string) \<Rightarrow> DictionaryData \<Rightarrow> CtmInterval list \<Rightarrow>
   string list \<Rightarrow> nat \<Rightarrow> CtmInterval list" where
  "consumed_entries sanitize dd ctm_labels text j =
     take (length (word_ints sanitize dd (text ! j)))
          (drop (cursor_at sanitize dd text j) ctm_labels)"

definition matched_entries :: "(string \<Rightarrow> int option) \<Rightarrow> int list \<Rightarrow> CtmInterval list \<Rightarrow> CtmInterval list" where
  "matched_entries pyint ints entries =
     map snd (filter (\<lambda>(i, c). pyint (ctm_label c) = Some i) (zip ints entries))"

definition in_span :: "CtmInterval \<Rightarrow> rat \<Rightarrow> bool" where
  "in_span c t = (ctm_begin c \<le> t \<and> t \<le> ctm_end c)"

definition covered :: "CtmInterval list \<Rightarrow> rat \<Rightarrow> bool" where
  "covered entries t = list_ex (\<lambda>c. in_span c t) entries"

fun chained :: "CtmInterval list \<Rightarrow> bool" where
  "chained (x # y # zs) =
     (ctm_begin x \<le> ctm_begin y \<and> ctm_begin y \<le> ctm_end x \<and> chained (y # zs))"
| "chained _ = True"

section \<open>Concrete data for examples\<close>

text \<open>
  Modelled from the spec: \<^verbatim>\<open>sanitize\<close> is defined in the module
  \<^verbatim>\<open>montreal_forced_aligner.dictionary\<close>, whose source is missing here; the spec says it
  strips punctuation that is not used as a clitic marker. Only the concrete examples use this definition: the general theorems
  hold for every \<open>sanitize\<close>.
\<close>

definition sanitize_spec :: "string \<Rightarrow> string \<Rightarrow> string \<Rightarrow> string" where
  "sanitize_spec item punct cm = filter (\<lambda>c. c \<notin> set punct \<or> c \<in> set cm) item"

text \<open>A dictionary with the words \<^verbatim>\<open>cat\<close> (id 1) and \<^verbatim>\<open>'s\<close> (id 2), the apostrophe as
  clitic marker, \<^verbatim>\<open>'s\<close> as a known clitic, the hyphen as compound marker and 3 as the
  reserved id.\<close>

definition apostrophe_s :: string where
  "apostrophe_s = [CHR 0x27, CHR ''s'']"

definition cats :: string where
  "cats = ''cat'' @ apostrophe_s"

definition example_dictionary :: DictionaryData where
  "example_dictionary =
     \<lparr>words_mapping = [''cat'' \<mapsto> 1, apostrophe_s \<mapsto> 2], punctuation = '',.'',
      clitic_set = {apostrophe_s}, clitic_markers = [CHR 0x27], compound_markers = ''-'',
      oov_int = 3\<rparr>"

definition entry :: "rat \<Rightarrow> rat \<Rightarrow> string \<Rightarrow> CtmInterval" where
  "entry b e l = \<lparr>ctm_begin = b, ctm_end = e, ctm_label = l, utterance = Some ''u''\<rparr>"

section \<open>The phone remapper \<^verbatim>\<open>map_to_original_pronunciation\<close>\<close>

text \<open>A pronunciation of the lexicon: a dict with the key \<^verbatim>\<open>pronunciation\<close> and, optionally,
  the key \<^verbatim>\<open>original_pronunciation\<close>, both tuples of phones.\<close>

record PronunciationEntry =
  pronunciation :: "string list"
  original_pronunciation :: "string list option"

text \<open>\<^verbatim>\<open>s.replace(diacritic, "")\<close>: the occurrences of the diacritic are removed from left to
  right, without overlap; an empty diacritic removes nothing.\<close>

fun remove_sub :: "string \<Rightarrow> string \<Rightarrow> string" where
  "remove_sub d [] = []"
| "remove_sub d (c # cs) =
     (if d \<noteq> [] \<and> take (length d) (c # cs) = d
      then remove_sub d (drop (length d) (c # cs))
      else c # remove_sub d cs)"

text \<open>The loop \<^verbatim>\<open>for diacritic in strip_diacritics\<close>.\<close>

fun strip_all :: "string list \<Rightarrow> string \<Rightarrow> string" where
  "strip_all [] modded_phone = modded_phone"
| "strip_all (diacritic # rest) modded_phone = strip_all rest (remove_sub diacritic modded_phone)"

text \<open>
  The loop \<^verbatim>\<open>for p in pronunciations\<close>, with the candidate \<^verbatim>\<open>pron\<close> as state. The first
  component of the result tells whether the loop left through its \<^verbatim>\<open>break\<close>, on an entry
  whose pronunciation is the whole transcription.
\<close>

fun select_pron ::
  "string list \<Rightarrow> nat \<Rightarrow> PronunciationEntry list \<Rightarrow> PronunciationEntry option \<Rightarrow>
   bool \<times> PronunciationEntry option" where
  "select_pron transcription transcription_ind [] pron = (False, pron)"
| "select_pron transcription transcription_ind (p # ps) pron =
     (if (original_pronunciation p \<noteq> None \<and> transcription = pronunciation p
            \<and> Some (pronunciation p) = original_pronunciation p)
         \<or> (transcription = pronunciation p \<and> original_pronunciation p = None)
      then (True, pron)
      else select_pron transcription transcription_ind ps
             (if pronunciation p
                   = take (length (pronunciation p)) (drop transcription_ind transcription)
                 \<and> pron = None
              then Some p else pron))"

text \<open>
  The loop \<^verbatim>\<open>for pi in p["original_pronunciation"]\<close>. The state is the list \<^verbatim>\<open>phones\<close>, whose
  intervals the loop relabels in place, the list \<^verbatim>\<open>new_phones\<close> and \<^verbatim>\<open>mapping_ind\<close>. An
  exception leaves the state as it is at that moment. The positions of \<^verbatim>\<open>phones\<close> are
  taken to be distinct objects.
\<close>

fun original_loop ::
  "string list \<Rightarrow> string list \<Rightarrow> CtmInterval list \<times> CtmInterval list \<times> nat \<Rightarrow>
   (CtmInterval list \<times> CtmInterval list \<times> nat) \<times> error option" where
  "original_loop strip_diacritics [] st = (st, None)"
| "original_loop strip_diacritics (pi' # rest) (phones, new_phones, mapping_ind) =
     (if length phones \<le> mapping_ind then ((phones, new_phones, mapping_ind), Some IndexError)
      else if pi' = ctm_label (phones ! mapping_ind) then
        original_loop strip_diacritics rest
          (phones, new_phones @ [phones ! mapping_ind], mapping_ind + 1)
      else
        (let modded_phone = strip_all strip_diacritics pi' in
         if modded_phone = ctm_label (phones ! mapping_ind) then
           (let relabelled = (phones ! mapping_ind)\<lparr>ctm_label := pi'\<rparr> in
            original_loop strip_diacritics rest
              (phones[mapping_ind := relabelled], new_phones @ [relabelled], mapping_ind + 1))
         else if mapping_ind \<noteq> length phones - 1 then
           (if modded_phone
                 = ctm_label (phones ! mapping_ind) @ ctm_label (phones ! (mapping_ind + 1))
            then
              original_loop strip_diacritics rest
                (phones,
                 new_phones @
                   [\<lparr>ctm_begin = ctm_begin (phones ! mapping_ind),
                     ctm_end = ctm_end (phones ! (mapping_ind + 1)),
                     ctm_label = ctm_label (phones ! mapping_ind)
                                  @ ctm_label (phones ! (mapping_ind + 1)),
                     utterance = utterance (phones ! mapping_ind)\<rparr>],
                 mapping_ind + 1 + 1)
            else original_loop strip_diacritics rest (phones, new_phones, mapping_ind + 1))
         else original_loop strip_diacritics rest (phones, new_phones, mapping_ind + 1)))"

text \<open>
  The loop \<^verbatim>\<open>for pronunciations in subpronunciations\<close>, with the state \<^verbatim>\<open>(phones, new_phones,
  mapping_ind, transcription_ind)\<close>. The result is the list \<^verbatim>\<open>phones\<close> as the loop leaves it
  and either the exception raised or \<^verbatim>\<open>new_phones\<close>.
\<close>

fun subwords_loop ::
  "string list \<Rightarrow> string list \<Rightarrow> PronunciationEntry list list \<Rightarrow>
   CtmInterval list \<times> CtmInterval list \<times> nat \<times> nat \<Rightarrow>
   CtmInterval list \<times> (error + CtmInterval list)" where
  "subwords_loop strip_diacritics transcription [] (phones, new_phones, mapping_ind, tind) =
     (phones, Inr new_phones)"
| "subwords_loop strip_diacritics transcription (pronunciations # rest)
       (phones, new_phones, mapping_ind, tind) =
     (if length phones \<le> mapping_ind then (phones, Inr new_phones)
      else
        (case select_pron transcription tind pronunciations None of
           (True, pron) \<Rightarrow> (phones, Inr (new_phones @ phones))
         | (False, None) \<Rightarrow> (phones, Inr (new_phones @ phones))
         | (False, Some p) \<Rightarrow>
             (let to_extend = take (length (pronunciation p)) (drop tind phones) in
              if original_pronunciation p = None
                 \<or> Some (pronunciation p) = original_pronunciation p
              then (phones, Inr (new_phones @ to_extend))
              else
                (case original_loop strip_diacritics (the (original_pronunciation p))
                        (phones, new_phones, mapping_ind) of
                   ((phones', new_phones', mapping_ind'), Some err) \<Rightarrow> (phones', Inl err)
                 | ((phones', new_phones', mapping_ind'), None) \<Rightarrow>
                     subwords_loop strip_diacritics transcription rest
                       (phones', new_phones', mapping_ind',
                        tind + length (pronunciation p))))))"

definition map_to_original_pronunciation ::
  "CtmInterval list \<Rightarrow> PronunciationEntry list list \<Rightarrow> string list \<Rightarrow>
   CtmInterval list \<times> (error + CtmInterval list)" where
  "map_to_original_pronunciation phones subpronunciations strip_diacritics =
     subwords_loop strip_diacritics (map ctm_label phones) subpronunciations (phones, [], 0, 0)"

text \<open>The phones that occur in an original pronunciation of some candidate entry.\<close>

definition original_phones :: "PronunciationEntry list list \<Rightarrow> string set" where
  "original_phones subpronunciations =
     (\<Union>p \<in> set (concat subpronunciations).
        case original_pronunciation p of None \<Rightarrow> {} | Some ps \<Rightarrow> set ps)"

text \<open>How an interval of \<^verbatim>\<open>phones\<close> may differ after the call from what it was before: not
  at all, or in its label only, the new label being an original phone that the configured
  diacritics strip down to the old label.\<close>

definition relabel_ok :: "string list \<Rightarrow> string set \<Rightarrow> CtmInterval \<Rightarrow> CtmInterval \<Rightarrow> bool" where
  "relabel_ok strip_diacritics origs old new =
     (new = old
      \<or> (ctm_label new \<in> origs
         \<and> strip_all strip_diacritics (ctm_label new) = ctm_label old
         \<and> new = old\<lparr>ctm_label := ctm_label new\<rparr>))"

text \<open>Entries for examples.\<close>

definition pron_entry :: "string list \<Rightarrow> string list option \<Rightarrow> PronunciationEntry" where
  "pron_entry p q = \<lparr>pronunciation = p, original_pronunciation = q\<rparr>"

section \<open>The annotation exporter \<^verbatim>\<open>export_textgrid\<close>\<close>

text \<open>The fields of a \<^verbatim>\<open>File\<close> that the exporter reads; a speaker is known by the text it
  prints as.\<close>

record File =
  name :: string
  duration :: rat
  speaker_ordering :: "string list"

text \<open>
  \<^verbatim>\<open>export_textgrid\<close> overwrites the \<^verbatim>\<open>end\<close> field of interval objects that its caller
  still holds, so the intervals live in a store of objects, addressed by natural numbers,
  and the lists of \<^verbatim>\<open>speaker_data\<close> hold addresses: two list positions with the same
  address are the same object. \<^verbatim>\<open>speaker_data\<close> is a dict in insertion order, from a
  speaker to its \<^verbatim>\<open>words\<close> and \<^verbatim>\<open>phones\<close>.
\<close>

type_synonym store = "nat \<Rightarrow> CtmInterval"

type_synonym speaker_data = "(string \<times> nat list \<times> nat list) list"

text \<open>The interval of the textgrid library: start, end and label.\<close>

type_synonym tg_interval = "rat \<times> rat \<times> string"

definition to_tg_interval :: "CtmInterval \<Rightarrow> tg_interval" where
  "to_tg_interval c = (ctm_begin c, ctm_end c, ctm_label c)"

text \<open>The first statement of \<^verbatim>\<open>export_textgrid\<close>,
  \<^verbatim>\<open>if frame_shift > 1: frame_shift = round(frame_shift / 1000, 4)\<close>, with \<^verbatim>\<open>round\<close> and \<^verbatim>\<open>/\<close>
  as parameters.\<close>

definition frame_shift_seconds :: "(rat \<Rightarrow> rat) \<Rightarrow> (rat \<Rightarrow> rat \<Rightarrow> rat) \<Rightarrow> rat \<Rightarrow> rat" where
  "frame_shift_seconds pyround fdiv frame_shift =
     (if 1 < frame_shift then pyround (fdiv frame_shift 1000) else frame_shift)"

text \<open>The loops \<^verbatim>\<open>for w in words\<close> and \<^verbatim>\<open>for p in phones\<close>: the state is the store and the
  list of intervals built for the tier. The test is
  \<^verbatim>\<open>file.duration - w.end < frame_shift\<close>, with \<^verbatim>\<open>-\<close> on floats as the parameter \<open>fsub\<close>.\<close>

fun snap_loop ::
  "(rat \<Rightarrow> rat \<Rightarrow> rat) \<Rightarrow> rat \<Rightarrow> rat \<Rightarrow> nat list \<Rightarrow> store \<times> tg_interval list \<Rightarrow>
   store \<times> tg_interval list" where
  "snap_loop fsub dur frame_shift [] (h, tg) = (h, tg)"
| "snap_loop fsub dur frame_shift (w # ws) (h, tg) =
     (let h' = (if fsub dur (ctm_end (h w)) < frame_shift
                then h(w := (h w)\<lparr>ctm_end := dur\<rparr>) else h)
      in snap_loop fsub dur frame_shift ws (h', tg @ [to_tg_interval (h' w)]))"

text \<open>The names of a speaker's tiers.\<close>

definition tier_names :: "File \<Rightarrow> string \<Rightarrow> string \<times> string" where
  "tier_names file speaker =
     (if 1 < length (speaker_ordering file)
      then (speaker @ '' - words'', speaker @ '' - phones'')
      else (''words'', ''phones''))"

text \<open>
  The loop \<^verbatim>\<open>for speaker, data in speaker_data.items()\<close>. The calls into the textgrid
  library \<^verbatim>\<open>praatio\<close> (building or opening the container according to
  \<^verbatim>\<open>first_file_write\<close>, \<^verbatim>\<open>replaceTier\<close>, \<^verbatim>\<open>save\<close>) are not modelled: the model records the
  tiers handed to \<^verbatim>\<open>replaceTier\<close>, in order, each a name and its intervals, and describes
  a call that returns.
\<close>

fun speakers_loop ::
  "(rat \<Rightarrow> rat \<Rightarrow> rat) \<Rightarrow> File \<Rightarrow> rat \<Rightarrow> speaker_data \<Rightarrow>
   store \<times> (string \<times> tg_interval list) list \<Rightarrow> store \<times> (string \<times> tg_interval list) list" where
  "speakers_loop fsub file frame_shift [] (h, tiers) = (h, tiers)"
| "speakers_loop fsub file frame_shift ((speaker, words, phones) # rest) (h, tiers) =
     (case snap_loop fsub (duration file) frame_shift words (h, []) of (h1, tg_words) \<Rightarrow>
      (case snap_loop fsub (duration file) frame_shift phones (h1, []) of (h2, tg_phones) \<Rightarrow>
         speakers_loop fsub file frame_shift rest
           (h2, tiers @ [(fst (tier_names file speaker), tg_words),
                         (snd (tier_names file speaker), tg_phones)])))"

definition export_textgrid ::
  "(rat \<Rightarrow> rat) \<Rightarrow> (rat \<Rightarrow> rat \<Rightarrow> rat) \<Rightarrow> (rat \<Rightarrow> rat \<Rightarrow> rat) \<Rightarrow>
   File \<Rightarrow> speaker_data \<Rightarrow> rat \<Rightarrow> store \<Rightarrow> store \<times> (string \<times> tg_interval list) list" where
  "export_textgrid pyround fdiv fsub file speaker_data frame_shift h =
     speakers_loop fsub file (frame_shift_seconds pyround fdiv frame_shift) speaker_data (h, [])"

text \<open>The interval objects that \<^verbatim>\<open>speaker_data\<close> refers to.\<close>

definition interval_refs :: "speaker_data \<Rightarrow> nat set" where
  "interval_refs speaker_data =
     (\<Union>(speaker, words, phones) \<in> set speaker_data. set words \<union> set phones)"

text \<open>What the boundary rule does to one interval.\<close>

definition snap :: "(rat \<Rightarrow> rat \<Rightarrow> rat) \<Rightarrow> rat \<Rightarrow> rat \<Rightarrow> CtmInterval \<Rightarrow> CtmInterval" where
  "snap fsub dur frame_shift c =
     (if fsub dur (ctm_end c) < frame_shift then c\<lparr>ctm_end := dur\<rparr> else c)"

text \<open>The tiers that \<^verbatim>\<open>speaker_data\<close> asks for, read from a store.\<close>

definition tiers_of :: "File \<Rightarrow> store \<Rightarrow> speaker_data \<Rightarrow> (string \<times> tg_interval list) list" where
  "tiers_of file h speaker_data =
     concat (map (\<lambda>(speaker, words, phones).
                    [(fst (tier_names file speaker), map (\<lambda>a. to_tg_interval (h a)) words),
                     (snd (tier_names file speaker), map (\<lambda>a. to_tg_interval (h a)) phones)])
                 speaker_data)"

text \<open>The store in which the boundary rule has been applied to the objects of a set.\<close>

definition snapped_refs ::
  "(rat \<Rightarrow> rat \<Rightarrow> rat) \<Rightarrow> rat \<Rightarrow> rat \<Rightarrow> nat set \<Rightarrow> store \<Rightarrow> store" where
  "snapped_refs fsub dur fs refs h = (\<lambda>a. if a \<in> refs then snap fsub dur fs (h a) else h a)"

text \<open>A file of ten seconds with two speakers, and a store of four intervals, for
  examples; all times are binary fractions.\<close>

definition example_file :: File where
  "example_file = \<lparr>name = ''rec1'', duration = 10, speaker_ordering = [''spk1'', ''spk2'']\<rparr>"

definition example_store :: store where
  "example_store =
     (\<lambda>a. if a = 0 then entry 9 (159 / 16) ''cat''
          else if a = 1 then entry 9 (19 / 2) ''k''
          else if a = 2 then entry (19 / 2) (159 / 16) ''t''
          else entry 4 5 ''dog'')"

section \<open>The error collector: \<^verbatim>\<open>ctms_to_textgrids_non_mp\<close> and
  \<^verbatim>\<open>output_textgrid_writing_errors\<close>\<close>

text \<open>
  The export of one file, \<^verbatim>\<open>ctm_to_textgrid(file, aligner, first_file_write)\<close>, goes through
  the corpus classes and the textgrid library \<^verbatim>\<open>praatio\<close>, which are other modules. A batch
  is therefore given as the calls made, job by job, each with the name of the file and
  what the call did: \<open>None\<close> when it returned, \<open>Some text\<close> when it raised, \<open>text\<close> being
  the formatted traceback. The set \<^verbatim>\<open>processed_files\<close> only decides the flag passed to the
  call and is left out, and so is the reading of the CTM files that precedes the exports
  of a job.
\<close>

type_synonym export_call = "string \<times> string option"

text \<open>\<^verbatim>\<open>d[key] = value\<close> on a dict in insertion order: a key already there keeps its place.\<close>

fun dict_set :: "(string \<times> string) list \<Rightarrow> string \<Rightarrow> string \<Rightarrow> (string \<times> string) list" where
  "dict_set [] key v = [(key, v)]"
| "dict_set ((k, x) # rest) key v =
     (if k = key then (k, v) # rest else (k, x) # dict_set rest key v)"

text \<open>The loop \<^verbatim>\<open>for file in j.job_files().values()\<close> with its \<^verbatim>\<open>try\<close>: in debug mode the
  exception is raised again, otherwise its text is stored under the name of the file.\<close>

fun files_loop ::
  "bool \<Rightarrow> export_call list \<Rightarrow> (string \<times> string) list \<Rightarrow> string + (string \<times> string) list" where
  "files_loop debug [] export_errors = Inr export_errors"
| "files_loop debug ((file_name, outcome) # rest) export_errors =
     (case outcome of
        None \<Rightarrow> files_loop debug rest export_errors
      | Some text \<Rightarrow>
          (if debug then Inl text
           else files_loop debug rest (dict_set export_errors file_name text)))"

text \<open>The loop \<^verbatim>\<open>for j in aligner.corpus.jobs\<close>.\<close>

fun jobs_loop ::
  "bool \<Rightarrow> export_call list list \<Rightarrow> (string \<times> string) list \<Rightarrow> string + (string \<times> string) list" where
  "jobs_loop debug [] export_errors = Inr export_errors"
| "jobs_loop debug (job # jobs) export_errors =
     (case files_loop debug job export_errors of
        Inl text \<Rightarrow> Inl text
      | Inr export_errors' \<Rightarrow> jobs_loop debug jobs export_errors')"

text \<open>
  \<^verbatim>\<open>output_textgrid_writing_errors\<close>. Of the file system only \<^verbatim>\<open>output_errors.txt\<close> in the
  output directory matters: \<open>None\<close> when the file does not exist, its content otherwise.
\<close>

definition newline :: char where
  "newline = CHR 0x0A"

definition report_header :: string where
  "report_header =
     ''The following exceptions were encountered during the output of the alignments to TextGrids:''
     @ [newline, newline]"

fun write_errors :: "(string \<times> string) list \<Rightarrow> string option \<Rightarrow> string option" where
  "write_errors [] error_log = error_log"
| "write_errors ((file_name, result) # rest) error_log =
     (let opened = (case error_log of None \<Rightarrow> report_header | Some existing \<Rightarrow> existing)
      in write_errors rest
           (Some (opened @ (file_name @ '':'' @ [newline]) @ (result @ [newline, newline]))))"

definition output_textgrid_writing_errors ::
  "string option \<Rightarrow> (string \<times> string) list \<Rightarrow> string option" where
  "output_textgrid_writing_errors error_log export_errors =
     write_errors export_errors (if error_log \<noteq> None then None else error_log)"

text \<open>The whole batch: the exception that leaves the function, if any, and
  \<^verbatim>\<open>output_errors.txt\<close> afterwards.\<close>

definition ctms_to_textgrids_non_mp ::
  "bool \<Rightarrow> export_call list list \<Rightarrow> string option \<Rightarrow> string option \<times> string option" where
  "ctms_to_textgrids_non_mp debug jobs error_log =
     (case jobs_loop debug jobs [] of
        Inl text \<Rightarrow> (Some text, error_log)
      | Inr export_errors \<Rightarrow> (None, output_textgrid_writing_errors error_log export_errors))"

text \<open>The calls that raised, in order, each with the name of its file and its error text.\<close>

fun failures :: "export_call list \<Rightarrow> (string \<times> string) list" where
  "failures [] = []"
| "failures ((file_name, None) # rest) = failures rest"
| "failures ((file_name, Some text) # rest) = (file_name, text) # failures rest"

text \<open>What the report holds for one failing file: the name and a colon, the error text, and
  an empty line.\<close>

definition report_entry :: "string \<times> string \<Rightarrow> string" where
  "report_entry e = fst e @ '':'' @ [newline] @ snd e @ [newline, newline]"

text \<open>The dict \<^verbatim>\<open>export_errors\<close> after storing a list of failures, one by one.\<close>

fun collect :: "(string \<times> string) list \<Rightarrow> (string \<times> string) list \<Rightarrow> (string \<times> string) list" where
  "collect [] errs = errs"
| "collect ((n, t) # fs) errs = collect fs (dict_set errs n t)"

section \<open>Properties of the word reconstructor\<close>

lemma Min_insert_min:
  "finite S \<Longrightarrow> Min (insert (min c b) S) = Min (insert c (insert b (S :: rat set)))"
  by (cases "S = {}") (simp_all add: min.assoc)

lemma Max_insert_max:
  "finite S \<Longrightarrow> Max (insert (max c b) S) = Max (insert c (insert b (S :: rat set)))"
  by (cases "S = {}") (simp_all add: max.assoc)

lemma consume_ints_bounds:
  "consume_ints pyint ctm_labels ints (k, u, b, e) = Inr (k', u', b', e') \<Longrightarrow>
   k' = k + length ints \<and>
   b' = Min (insert b (ctm_begin ` set (matched_entries pyint ints (take (length ints) (drop k ctm_labels))))) \<and>
   e' = Max (insert e (ctm_end ` set (matched_entries pyint ints (take (length ints) (drop k ctm_labels)))))"
proof (induction ints arbitrary: k u b e)
  case Nil
  then show ?case by (simp add: matched_entries_def)
next
  case (Cons i ints)
  from Cons.prems have klt: "k < length ctm_labels"
    by (auto simp: index_def split: if_splits)
  let ?cur = "ctm_labels ! k"
  from Cons.prems klt obtain n where n: "pyint (ctm_label ?cur) = Some n"
    by (auto simp: index_def Let_def split: option.splits)
  have dr: "drop k ctm_labels = ?cur # drop (Suc k) ctm_labels"
    using klt by (simp add: Cons_nth_drop_Suc)
  let ?rest = "matched_entries pyint ints (take (length ints) (drop (Suc k) ctm_labels))"
  have fin: "finite (ctm_begin ` set ?rest)" "finite (ctm_end ` set ?rest)" by simp_all
  show ?case
  proof (cases "i = n")
    case True
    let ?u = "if u = None then utterance ?cur else u"
    let ?b = "if ctm_begin ?cur < b then ctm_begin ?cur else b"
    let ?e = "if e < ctm_end ?cur then ctm_end ?cur else e"
    from Cons.prems klt n True
    have "consume_ints pyint ctm_labels ints (Suc k, ?u, ?b, ?e) = Inr (k', u', b', e')"
      by (simp add: index_def Let_def)
    from Cons.IH [OF this]
    have k': "k' = Suc k + length ints"
      and b': "b' = Min (insert ?b (ctm_begin ` set ?rest))"
      and e': "e' = Max (insert ?e (ctm_end ` set ?rest))" by simp_all
    have m: "matched_entries pyint (i # ints) (take (length (i # ints)) (drop k ctm_labels))
             = ?cur # ?rest"
      using True n by (simp add: matched_entries_def dr)
    have "?b = min (ctm_begin ?cur) b" by (simp add: min_def)
    then have "b' = Min (insert (ctm_begin ?cur) (insert b (ctm_begin ` set ?rest)))"
      using b' Min_insert_min [OF fin(1)] by simp
    moreover have "?e = max (ctm_end ?cur) e" by (simp add: max_def)
    then have "e' = Max (insert (ctm_end ?cur) (insert e (ctm_end ` set ?rest)))"
      using e' Max_insert_max [OF fin(2)] by simp
    ultimately show ?thesis using k' by (simp only: m) (simp add: insert_commute)
  next
    case False
    let ?u = "if u = None then utterance ?cur else u"
    from Cons.prems klt n False
    have "consume_ints pyint ctm_labels ints (Suc k, ?u, b, e) = Inr (k', u', b', e')"
      by (simp add: index_def Let_def)
    from Cons.IH [OF this]
    have k': "k' = Suc k + length ints"
      and b': "b' = Min (insert b (ctm_begin ` set ?rest))"
      and e': "e' = Max (insert e (ctm_end ` set ?rest))" by simp_all
    have m: "matched_entries pyint (i # ints) (take (length (i # ints)) (drop k ctm_labels))
             = ?rest"
      using False n by (simp add: matched_entries_def dr)
    show ?thesis using k' b' e' by (simp only: m) simp
  qed
qed

lemma words_loop_entry:
  "words_loop pyint sanitize dd ctm_labels ws (k, u) = Inr out \<Longrightarrow> j < length ws \<Longrightarrow>
   length out = length ws \<and> ctm_label (out ! j) = ws ! j \<and>
   (\<exists>u0 k' u'. consume_ints pyint ctm_labels (word_ints sanitize dd (ws ! j))
        (k + cursor_at sanitize dd ws j, u0, 1000000, - 1)
      = Inr (k', u', ctm_begin (out ! j), ctm_end (out ! j)))"
proof (induction ws arbitrary: k u out j)
  case Nil
  then show ?case by simp
next
  case (Cons word ws)
  let ?ints = "word_ints sanitize dd word"
  from Cons.prems(1) obtain k1 u1 b e rest where
    c: "consume_ints pyint ctm_labels ?ints (k, u, 1000000, - 1) = Inr (k1, u1, b, e)"
    and r: "words_loop pyint sanitize dd ctm_labels ws (k1, u1) = Inr rest"
    and out: "out = \<lparr>ctm_begin = b, ctm_end = e, ctm_label = word, utterance = u1\<rparr> # rest"
    by (auto simp: Let_def split: sum.splits prod.splits)
  from consume_ints_bounds [OF c] have k1: "k1 = k + length ?ints" by simp
  have len: "length rest = length ws"
  proof (cases "ws = []")
    case True
    with r show ?thesis by simp
  next
    case False
    then have "0 < length ws" by simp
    from Cons.IH [OF r this] show ?thesis by simp
  qed
  show ?case
  proof (cases j)
    case 0
    then show ?thesis using c out len by (auto simp: cursor_at_def)
  next
    case (Suc j')
    with Cons.prems(2) have j': "j' < length ws" by simp
    from Cons.IH [OF r j'] show ?thesis
      using Suc out k1 by (simp add: cursor_at_def add.assoc)
  qed
qed

lemma chained_first_begin:
  "chained (a # rest) \<Longrightarrow> x \<in> set (a # rest) \<Longrightarrow> ctm_begin a \<le> ctm_begin x"
proof (induction rest arbitrary: a)
  case Nil
  then show ?case by simp
next
  case (Cons a' rest)
  then show ?case by (auto intro: order_trans)
qed

lemma chained_covered:
  "chained xs \<Longrightarrow> x \<in> set xs \<Longrightarrow> y \<in> set xs \<Longrightarrow> ctm_begin x \<le> t \<Longrightarrow> t \<le> ctm_end y \<Longrightarrow>
   covered xs t"
proof (induction xs arbitrary: x)
  case Nil
  then show ?case by simp
next
  case (Cons a rest)
  show ?case
  proof (cases "t \<le> ctm_end a")
    case True
    moreover have "ctm_begin a \<le> t"
      using chained_first_begin [OF Cons.prems(1,2)] Cons.prems(4) by simp
    ultimately show ?thesis by (simp add: covered_def in_span_def)
  next
    case False
    with Cons.prems(3,5) have y: "y \<in> set rest" by auto
    then obtain a' rest' where rest: "rest = a' # rest'" by (cases rest) auto
    with Cons.prems(1) have ch: "chained rest" and le: "ctm_begin a' \<le> ctm_end a" by simp_all
    have "a' \<in> set rest" using rest by simp
    moreover have "ctm_begin a' \<le> t" using le False by simp
    ultimately have "covered rest t" using Cons.IH [OF ch _ y _ Cons.prems(5)] by blast
    then show ?thesis by (simp add: covered_def)
  qed
qed

lemma matched_entries_subset: "set (matched_entries pyint ints entries) \<subseteq> set entries"
  by (auto simp: matched_entries_def dest: set_zip_rightD)

text \<open>
  Claim C1, as amended. The claim as stated fails: a word none of whose consumed entries
  carries the expected id keeps the sentinels, begin 1000000 and end -1; the bounds are
  the least begin and the greatest end of the matching entries, so a gap between the
  consumed entries lies inside the span; and an entry at or beyond a sentinel does not
  move it. What holds: when \<^verbatim>\<open>parse_from_word\<close> returns, for every word at least one of
  whose consumed entries carries the expected id, and whose matching entries each have
  begin \<open>\<le>\<close> end, begin below 1000000 and end above -1, the interval returned for the word
  carries the word as label, its begin is the least begin and its end the greatest end of
  the matching entries (entries with another id are consumed and leave the bounds alone),
  begin \<open>\<le>\<close> end, and, when the consumed entries are in time order and each begins no later
  than its predecessor ends, every point of the span lies in a consumed entry.
\<close>

theorem parse_from_word_bounds:
  assumes "parse_from_word pyint sanitize ctm_labels text dd = Inr out"
    and "j < length text"
    and "matched_entries pyint (word_ints sanitize dd (text ! j))
           (consumed_entries sanitize dd ctm_labels text j) \<noteq> []"
    and "list_all (\<lambda>c. ctm_begin c \<le> ctm_end c \<and> ctm_begin c < 1000000 \<and> - 1 < ctm_end c)
           (matched_entries pyint (word_ints sanitize dd (text ! j))
              (consumed_entries sanitize dd ctm_labels text j))"
  shows "ctm_label (out ! j) = text ! j \<and>
         ctm_begin (out ! j) = Min (ctm_begin ` set (matched_entries pyint (word_ints sanitize dd (text ! j))
              (consumed_entries sanitize dd ctm_labels text j))) \<and>
         ctm_end (out ! j) = Max (ctm_end ` set (matched_entries pyint (word_ints sanitize dd (text ! j))
              (consumed_entries sanitize dd ctm_labels text j))) \<and>
         ctm_begin (out ! j) \<le> ctm_end (out ! j) \<and>
         (chained (consumed_entries sanitize dd ctm_labels text j) \<longrightarrow>
            (\<forall>t. in_span (out ! j) t \<longrightarrow> covered (consumed_entries sanitize dd ctm_labels text j) t))"
proof -
  let ?cons = "consumed_entries sanitize dd ctm_labels text j"
  let ?ms = "matched_entries pyint (word_ints sanitize dd (text ! j)) ?cons"
  from assms(1) have w: "words_loop pyint sanitize dd ctm_labels text (0, None) = Inr out"
    by (simp add: parse_from_word_def)
  from words_loop_entry [OF w assms(2)] obtain u0 k' u' where
    lab: "ctm_label (out ! j) = text ! j"
    and c: "consume_ints pyint ctm_labels (word_ints sanitize dd (text ! j))
        (cursor_at sanitize dd text j, u0, 1000000, - 1)
      = Inr (k', u', ctm_begin (out ! j), ctm_end (out ! j))" by auto
  from consume_ints_bounds [OF c]
  have b: "ctm_begin (out ! j) = Min (insert 1000000 (ctm_begin ` set ?ms))"
    and e: "ctm_end (out ! j) = Max (insert (- 1) (ctm_end ` set ?ms))"
    by (simp_all add: consumed_entries_def)
  have fin: "finite (ctm_begin ` set ?ms)" "finite (ctm_end ` set ?ms)" by simp_all
  have ne: "ctm_begin ` set ?ms \<noteq> {}" "ctm_end ` set ?ms \<noteq> {}" using assms(3) by simp_all
  have all: "ctm_begin c \<le> ctm_end c \<and> ctm_begin c < 1000000 \<and> - 1 < ctm_end c" if "c \<in> set ?ms" for c
    using assms(4) that by (simp add: list_all_iff)
  have "Min (ctm_begin ` set ?ms) \<le> 1000000"
  proof -
    obtain c where "c \<in> set ?ms" using assms(3) by (cases ?ms) auto
    then have "Min (ctm_begin ` set ?ms) \<le> ctm_begin c" "ctm_begin c < 1000000"
      using all fin by simp_all
    then show ?thesis by simp
  qed
  moreover have "Min (insert 1000000 (ctm_begin ` set ?ms)) = min 1000000 (Min (ctm_begin ` set ?ms))"
    using fin(1) ne(1) by (rule Min_insert)
  ultimately have b': "ctm_begin (out ! j) = Min (ctm_begin ` set ?ms)"
    using b by (simp only: min_absorb2)
  have "- 1 \<le> Max (ctm_end ` set ?ms)"
  proof -
    obtain c where "c \<in> set ?ms" using assms(3) by (cases ?ms) auto
    then have "ctm_end c \<le> Max (ctm_end ` set ?ms)" "- 1 < ctm_end c"
      using all fin by simp_all
    then show ?thesis by simp
  qed
  moreover have "Max (insert (- 1) (ctm_end ` set ?ms)) = max (- 1) (Max (ctm_end ` set ?ms))"
    using fin(2) ne(2) by (rule Max_insert)
  ultimately have e': "ctm_end (out ! j) = Max (ctm_end ` set ?ms)"
    using e by (simp only: max_absorb2)
  obtain x where x: "x \<in> set ?ms" "ctm_begin x = Min (ctm_begin ` set ?ms)"
    using Min_in [OF fin(1) ne(1)] by auto
  obtain y where y: "y \<in> set ?ms" "ctm_end y = Max (ctm_end ` set ?ms)"
    using Max_in [OF fin(2) ne(2)] by auto
  have xy: "Min (ctm_begin ` set ?ms) \<le> ctm_begin y"
    using fin(1) y(1) by (intro Min_le) auto
  have yy: "ctm_begin y \<le> ctm_end y" using all [OF y(1)] by blast
  have le: "ctm_begin (out ! j) \<le> ctm_end (out ! j)"
    unfolding b' e' y(2) [symmetric] using xy yy by (rule order_trans)
  have cov: "covered ?cons t" if "chained ?cons" "in_span (out ! j) t" for t
  proof -
    have "x \<in> set ?cons" "y \<in> set ?cons" using x y matched_entries_subset by blast+
    moreover have "ctm_begin x \<le> t" "t \<le> ctm_end y"
      using that(2) b' e' x y by (simp_all add: in_span_def)
    ultimately show ?thesis using chained_covered [OF that(1)] by blast
  qed
  show ?thesis using lab b' e' le cov by blast
qed

text \<open>Concrete runs.\<close>

lemmas run_defs = entry_def decimal_int_def digit_val_def index_def

lemmas example_defs = example_dictionary_def apostrophe_s_def cats_def sanitize_spec_def

lemma word_ints_cat: "word_ints sanitize_spec example_dictionary ''cat'' = [1]"
  by (simp add: word_ints_def to_int_def lookup_def example_defs)

lemma word_ints_cats: "word_ints sanitize_spec example_dictionary cats = [1, 2]"
  by (simp add: word_ints_def to_int_def lookup_def example_defs split_clitics.simps any_in_def class_matches_def
      re_split1_def)

lemma word_ints_cat_cat: "word_ints sanitize_spec example_dictionary ''cat-cat'' = [1, 1]"
  by (simp add: word_ints_def to_int_def lookup_def example_defs split_clitics.simps any_in_def class_matches_def)

text \<open>
  The claim as stated fails in three ways. The stream holds id 2 where \<^verbatim>\<open>cat\<close> expects id 1:
  the interval returned has begin 1000000 and end -1. The two halves of \<^verbatim>\<open>cat-cat\<close> are
  aligned to 0..1 and 2..3: the interval returned is 0..3, and 3/2 lies in no consumed
  entry. The only entry for \<^verbatim>\<open>cat\<close> begins at 2000000: the interval returned begins at
  the sentinel 1000000, and 1500000 lies in no consumed entry.
\<close>

theorem parse_from_word_bounds_counterexample:
  "(parse_from_word decimal_int sanitize_spec [entry 0 (3 / 10) ''2''] [''cat''] example_dictionary
      = Inr [\<lparr>ctm_begin = 1000000, ctm_end = - 1, ctm_label = ''cat'', utterance = Some ''u''\<rparr>]
    \<and> \<not> (1000000 :: rat) \<le> - 1)
   \<and> (parse_from_word decimal_int sanitize_spec [entry 0 1 ''1'', entry 2 3 ''1''] [''cat-cat'']
        example_dictionary
      = Inr [\<lparr>ctm_begin = 0, ctm_end = 3, ctm_label = ''cat-cat'', utterance = Some ''u''\<rparr>]
    \<and> consumed_entries sanitize_spec example_dictionary [entry 0 1 ''1'', entry 2 3 ''1'']
        [''cat-cat''] 0 = [entry 0 1 ''1'', entry 2 3 ''1'']
    \<and> in_span \<lparr>ctm_begin = 0, ctm_end = 3, ctm_label = ''cat-cat'', utterance = Some ''u''\<rparr> (3 / 2)
    \<and> \<not> covered [entry 0 1 ''1'', entry 2 3 ''1''] (3 / 2))
   \<and> (parse_from_word decimal_int sanitize_spec [entry 2000000 2000001 ''1''] [''cat'']
        example_dictionary
      = Inr [\<lparr>ctm_begin = 1000000, ctm_end = 2000001, ctm_label = ''cat'', utterance = Some ''u''\<rparr>]
    \<and> consumed_entries sanitize_spec example_dictionary [entry 2000000 2000001 ''1'']
        [''cat''] 0 = [entry 2000000 2000001 ''1'']
    \<and> in_span \<lparr>ctm_begin = 1000000, ctm_end = 2000001, ctm_label = ''cat'', utterance = Some ''u''\<rparr>
        1500000
    \<and> \<not> covered [entry 2000000 2000001 ''1''] 1500000)"
  by (simp add: parse_from_word_def word_ints_cat word_ints_cat_cat consumed_entries_def
      cursor_at_def in_span_def covered_def run_defs)

text \<open>The theorem at the spec's example: \<^verbatim>\<open>cat's\<close> aligned as \<^verbatim>\<open>cat\<close> on 0..0.3 and \<^verbatim>\<open>'s\<close> on
  0.3..0.5 gives the word interval 0..0.5.\<close>

theorem parse_from_word_bounds_witness:
  "parse_from_word decimal_int sanitize_spec [entry 0 (3 / 10) ''1'', entry (3 / 10) (1 / 2) ''2'']
      [cats] example_dictionary
     = Inr [\<lparr>ctm_begin = 0, ctm_end = 1 / 2, ctm_label = cats, utterance = Some ''u''\<rparr>]
   \<and> matched_entries decimal_int (word_ints sanitize_spec example_dictionary cats)
        (consumed_entries sanitize_spec example_dictionary
           [entry 0 (3 / 10) ''1'', entry (3 / 10) (1 / 2) ''2''] [cats] 0)
     = [entry 0 (3 / 10) ''1'', entry (3 / 10) (1 / 2) ''2'']
   \<and> chained [entry 0 (3 / 10) ''1'', entry (3 / 10) (1 / 2) ''2'']
   \<and> Min (ctm_begin ` set [entry 0 (3 / 10) ''1'', entry (3 / 10) (1 / 2) ''2'']) = 0
   \<and> Max (ctm_end ` set [entry 0 (3 / 10) ''1'', entry (3 / 10) (1 / 2) ''2'']) = 1 / 2
   \<and> covered [entry 0 (3 / 10) ''1'', entry (3 / 10) (1 / 2) ''2''] (2 / 5)"
proof -
  let ?labels = "[entry 0 (3 / 10) ''1'', entry (3 / 10) (1 / 2) ''2'']"
  let ?out = "[\<lparr>ctm_begin = 0, ctm_end = 1 / 2, ctm_label = cats, utterance = Some ''u''\<rparr>]"
  have run: "parse_from_word decimal_int sanitize_spec ?labels [cats] example_dictionary = Inr ?out"
    by (simp add: parse_from_word_def word_ints_cats run_defs)
  have j: "(0::nat) < length [cats]" by simp
  have cons: "consumed_entries sanitize_spec example_dictionary ?labels [cats] 0 = ?labels"
    by (simp add: consumed_entries_def cursor_at_def word_ints_cats)
  have ms: "matched_entries decimal_int (word_ints sanitize_spec example_dictionary ([cats] ! 0))
              (consumed_entries sanitize_spec example_dictionary ?labels [cats] 0) = ?labels"
    unfolding cons by (simp add: word_ints_cats matched_entries_def run_defs)
  have ne: "matched_entries decimal_int (word_ints sanitize_spec example_dictionary ([cats] ! 0))
              (consumed_entries sanitize_spec example_dictionary ?labels [cats] 0) \<noteq> []"
    by (simp only: ms) simp
  have ok: "list_all (\<lambda>c. ctm_begin c \<le> ctm_end c \<and> ctm_begin c < 1000000 \<and> - 1 < ctm_end c)
      (matched_entries decimal_int (word_ints sanitize_spec example_dictionary ([cats] ! 0))
              (consumed_entries sanitize_spec example_dictionary ?labels [cats] 0))"
    by (simp only: ms) (simp add: entry_def)
  have ch: "chained ?labels" by (simp add: entry_def)
  have sp: "in_span (?out ! 0) (2 / 5)" by (simp add: in_span_def)
  from parse_from_word_bounds [OF run j ne ok] run ms ch sp show ?thesis
    by (simp add: cons covered_def in_span_def entry_def)
qed

section \<open>Properties of the lexical splitter\<close>

lemma re_split_nonempty: "re_split ms s \<noteq> []"
  by (induction s) (auto simp: Let_def)

lemma re_split_length:
  "seg \<in> set (re_split ms s) \<Longrightarrow> length seg \<le> length s"
proof (induction s arbitrary: seg)
  case Nil
  then show ?case by simp
next
  case (Cons x xs)
  have ne: "re_split ms xs \<noteq> []" by (rule re_split_nonempty)
  show ?case
  proof (cases "class_matches ms x")
    case True
    with Cons show ?thesis by (auto simp: le_Suc_eq)
  next
    case False
    with Cons.prems have "seg = x # hd (re_split ms xs) \<or> seg \<in> set (tl (re_split ms xs))"
      by (simp add: Let_def)
    then show ?thesis
    proof
      assume "seg = x # hd (re_split ms xs)"
      moreover have "hd (re_split ms xs) \<in> set (re_split ms xs)" using ne by simp
      ultimately show ?thesis using Cons.IH by auto
    next
      assume "seg \<in> set (tl (re_split ms xs))"
      then have "seg \<in> set (re_split ms xs)" using ne by (meson list.set_sel(2))
      then show ?thesis using Cons.IH by fastforce
    qed
  qed
qed

lemma class_matches_plain: "regex_plain ms \<Longrightarrow> class_matches ms c \<longleftrightarrow> c \<in> set ms"
  by (cases ms) (auto simp: class_matches_def regex_plain_def)

lemma re_split_shorter:
  "regex_plain ms \<Longrightarrow> any_in ms s \<Longrightarrow> seg \<in> set (re_split ms s) \<Longrightarrow> length seg < length s"
proof (induction s arbitrary: seg)
  case Nil
  then show ?case by (simp add: any_in_def list_ex_iff)
next
  case (Cons x xs)
  have ne: "re_split ms xs \<noteq> []" by (rule re_split_nonempty)
  note cm = class_matches_plain [OF Cons.prems(1)]
  show ?case
  proof (cases "x \<in> set ms")
    case True
    with Cons.prems(3) have "seg = [] \<or> seg \<in> set (re_split ms xs)" by (auto simp: cm)
    then show ?thesis using re_split_length [of seg ms xs] by auto
  next
    case False
    with Cons.prems(2) have any: "any_in ms xs"
      by (auto simp: any_in_def list_ex_iff)
    from False Cons.prems(3)
    have "seg = x # hd (re_split ms xs) \<or> seg \<in> set (tl (re_split ms xs))"
      by (simp add: Let_def cm)
    then show ?thesis
    proof
      assume "seg = x # hd (re_split ms xs)"
      moreover have "hd (re_split ms xs) \<in> set (re_split ms xs)" using ne by simp
      ultimately show ?thesis using Cons.IH [OF Cons.prems(1) any] by auto
    next
      assume "seg \<in> set (tl (re_split ms xs))"
      then have "seg \<in> set (re_split ms xs)" using ne by (meson list.set_sel(2))
      then show ?thesis using Cons.IH [OF Cons.prems(1) any] by fastforce
    qed
  qed
qed

lemma re_split_concat_filter:
  "(\<And>c. class_matches ms c \<Longrightarrow> \<not> P c) \<Longrightarrow> filter P (concat (re_split ms s)) = filter P s"
proof (induction s)
  case Nil
  then show ?case by simp
next
  case (Cons x xs)
  have ne: "re_split ms xs \<noteq> []" by (rule re_split_nonempty)
  then have hd_tl: "hd (re_split ms xs) @ concat (tl (re_split ms xs)) = concat (re_split ms xs)"
    by (cases "re_split ms xs") auto
  show ?case
  proof (cases "class_matches ms x")
    case True
    then show ?thesis using Cons by simp
  next
    case False
    have "filter P (concat (re_split ms (x # xs))) =
          filter P (x # (hd (re_split ms xs) @ concat (tl (re_split ms xs))))"
      using False by (simp add: Let_def)
    also have "\<dots> = filter P (x # concat (re_split ms xs))" by (simp only: hd_tl)
    finally show ?thesis using Cons by simp
  qed
qed

lemma re_split1_decomp:
  assumes "\<exists>c \<in> set item. class_matches ms c"
  shows "\<exists>m. class_matches ms m \<and> item = fst (re_split1 ms item) @ m # snd (re_split1 ms item)"
proof -
  let ?i = "takeWhile (\<lambda>c. \<not> class_matches ms c) item"
  let ?d = "dropWhile (\<lambda>c. \<not> class_matches ms c) item"
  from assms have ne: "?d \<noteq> []" by auto
  then have m: "class_matches ms (hd ?d)"
    using hd_dropWhile [of "\<lambda>c. \<not> class_matches ms c" item] by simp
  have "item = ?i @ ?d" by simp
  also have "?d = hd ?d # tl ?d" using ne by simp
  finally have "item = ?i @ hd ?d # tl ?d" .
  moreover have "tl ?d = drop (Suc (length ?i)) item"
    by (metis drop_Suc dropWhile_eq_drop tl_drop)
  ultimately show ?thesis using m by (auto simp: re_split1_def Let_def)
qed

lemma attach_clitic_content:
  assumes "attach_clitic initial final cset cs = Some r" and "final \<noteq> []"
    and "\<And>c. c \<in> set cs \<Longrightarrow> \<not> P c"
  shows "filter P (concat r) = filter P (initial @ concat final)"
  using assms
proof (induction cs)
  case Nil
  then show ?case by simp
next
  case (Cons c cs)
  from Cons.prems(2) have f: "concat final = hd final @ concat (tl final)"
    by (cases final) auto
  from Cons.prems(3) have np: "\<not> P c" by simp
  show ?case
  proof (cases "initial @ [c] \<in> cset")
    case True
    with Cons.prems(1) have "r = (initial @ [c]) # final" by simp
    then show ?thesis using np by simp
  next
    case False
    show ?thesis
    proof (cases "c # hd final \<in> cset")
      case True
      with False Cons.prems(1) have "r = initial # (c # hd final) # tl final" by simp
      then show ?thesis using np f by simp
    next
      case no: False
      with False Cons.prems(1) have "attach_clitic initial final cset cs = Some r" by simp
      then show ?thesis using Cons.IH Cons.prems(2,3) by simp
    qed
  qed
qed

lemma attach_clitic_nonempty: "attach_clitic initial final cset cs = Some r \<Longrightarrow> r \<noteq> []"
  by (induction cs) (auto split: if_splits)

text \<open>\<^verbatim>\<open>split_clitics\<close> never returns an empty list, so \<^verbatim>\<open>final[0]\<close> in its clitic branch
  is always in range.\<close>

lemma split_clitics_nonempty: "split_clitics item wm cset cm pm \<noteq> []"
proof (induction item wm cset cm pm rule: split_clitics.induct)
  case (1 item wm cset cm pm)
  have ne: "re_split pm item \<noteq> []" by (rule re_split_nonempty)
  show ?case
  proof (cases "item \<in> dom wm")
    case True
    then show ?thesis by (subst split_clitics.simps) simp
  next
    case nin: False
    show ?thesis
    proof (cases "any_in pm item")
      case True
      show ?thesis
      proof (cases "any_in cm item")
        case False
        with nin True ne show ?thesis by (subst split_clitics.simps) simp
      next
        case c: True
        obtain seg segs where s: "re_split pm item = seg # segs"
          using ne by (cases "re_split pm item") auto
        have "any_in cm seg \<and> length seg < length item \<Longrightarrow> split_clitics seg wm cset cm pm \<noteq> []"
          using 1(1) [OF nin True c, of seg] s by simp
        then show ?thesis using nin True c s by (subst split_clitics.simps) auto
      qed
    next
      case False
      then show ?thesis using nin
        by (subst split_clitics.simps) (auto split: option.splits dest: attach_clitic_nonempty)
    qed
  qed
qed

text \<open>With plain markers the model of the compound branch is the source's: every piece
  that holds a clitic marker is shorter than the word, so the call is made on it.\<close>

lemma split_clitics_plain:
  assumes "regex_plain pm" and "item \<notin> dom wm" and "any_in pm item" and "any_in cm item"
  shows "split_clitics item wm cset cm pm =
           concat (map (\<lambda>seg. if any_in cm seg then split_clitics seg wm cset cm pm else [seg])
                       (re_split pm item))"
proof -
  have "(if any_in cm seg \<and> length seg < length item
         then split_clitics seg wm cset cm pm else [seg])
      = (if any_in cm seg then split_clitics seg wm cset cm pm else [seg])"
    if "seg \<in> set (re_split pm item)" for seg
    using re_split_shorter [OF assms(1,3) that] by simp
  then have eq: "map (\<lambda>seg. if any_in cm seg \<and> length seg < length item
                        then split_clitics seg wm cset cm pm else [seg]) (re_split pm item)
           = map (\<lambda>seg. if any_in cm seg then split_clitics seg wm cset cm pm else [seg])
               (re_split pm item)"
    by (intro map_cong) simp_all
  have step: "split_clitics item wm cset cm pm =
           concat (map (\<lambda>seg. if any_in cm seg \<and> length seg < length item
                        then split_clitics seg wm cset cm pm else [seg]) (re_split pm item))"
    using assms(2-4) by (subst split_clitics.simps) simp
  show ?thesis unfolding step by (rule arg_cong [OF eq])
qed

text \<open>
  Claim C3, as amended. The claim as stated fails for marker strings in which a character
  is special inside a bracket expression: the source puts the markers into the expression
  without escaping, and with the compound markers \<^verbatim>\<open>^-\<close> the word \<^verbatim>\<open>a-b\<close> is cut at the
  letters, not at the hyphen. What holds: for plain marker strings, and every word,
  vocabulary and clitic set, the tokens returned by \<^verbatim>\<open>split_clitics\<close>, concatenated and with
  the clitic and compound marker characters left out, are the characters of the word with
  its marker characters left out.
\<close>

theorem split_clitics_content:
  assumes "regex_plain cm" and "regex_plain pm"
  shows "content cm pm (concat (split_clitics item wm cset cm pm)) = content cm pm item"
  using assms
proof (induction item wm cset cm pm rule: split_clitics.induct)
  case (1 item wm cset cm pm)
  let ?P = "\<lambda>c. c \<notin> set cm \<and> c \<notin> set pm"
  show ?case
  proof (cases "item \<in> dom wm")
    case True
    then show ?thesis by (subst split_clitics.simps) simp
  next
    case nin: False
    show ?thesis
    proof (cases "any_in pm item")
      case pmk: True
      have whole: "filter ?P (concat (re_split pm item)) = filter ?P item"
        by (rule re_split_concat_filter) (simp add: class_matches_plain [OF 1(4)])
      show ?thesis
      proof (cases "any_in cm item")
        case False
        with nin pmk whole show ?thesis
          by (subst split_clitics.simps) (simp add: content_def)
      next
        case c: True
        have seg: "filter ?P (concat (if any_in cm seg \<and> length seg < length item
                      then split_clitics seg wm cset cm pm else [seg]))
                 = filter ?P seg" if "seg \<in> set (re_split pm item)" for seg
          using 1(1) [OF nin pmk c that _ 1(3,4)] by (simp add: content_def)
        have "filter ?P (concat (concat (map (\<lambda>seg. if any_in cm seg \<and> length seg < length item
                  then split_clitics seg wm cset cm pm else [seg]) segs)))
              = filter ?P (concat segs)" if "set segs \<subseteq> set (re_split pm item)" for segs
          using that
        proof (induction segs)
          case Nil
          then show ?case by simp
        next
          case (Cons a segs)
          then show ?case using seg [of a] by simp
        qed
        from this [of "re_split pm item"] whole nin pmk c show ?thesis
          by (subst split_clitics.simps) (simp add: content_def)
      qed
    next
      case npm: False
      show ?thesis
      proof (cases "list_ex (\<lambda>x. x \<in> set item \<and> last item \<noteq> x \<and> hd item \<noteq> x) cm")
        case False
        with nin npm show ?thesis by (subst split_clitics.simps) simp
      next
        case inner: True
        let ?ini = "fst (re_split1 cm item)"
        let ?rest = "snd (re_split1 cm item)"
        let ?fin = "if any_in cm ?rest then split_clitics ?rest wm cset cm pm else [?rest]"
        from inner have "\<exists>c \<in> set item. class_matches cm c"
          by (auto simp: list_ex_iff class_matches_plain [OF 1(3)])
        then obtain m where "class_matches cm m" and item: "item = ?ini @ m # ?rest"
          using re_split1_decomp by blast
        then have m: "m \<in> set cm" by (simp add: class_matches_plain [OF 1(3)])
        have fin_ne: "?fin \<noteq> []" by (simp add: split_clitics_nonempty)
        have fin_c: "filter ?P (concat ?fin) = filter ?P ?rest"
          using 1(2) [OF nin npm inner _ 1(3,4)] by (simp add: content_def)
        have item_c: "filter ?P item = filter ?P (?ini @ ?rest)"
          using m by (subst item) simp
        show ?thesis
        proof (cases "attach_clitic ?ini ?fin cset cm")
          case None
          with nin npm inner show ?thesis by (subst split_clitics.simps) simp
        next
          case (Some r)
          have "filter ?P (concat r) = filter ?P (?ini @ concat ?fin)"
            by (rule attach_clitic_content [OF Some fin_ne]) simp
          then have "filter ?P (concat r) = filter ?P item"
            using fin_c item_c by simp
          moreover have "split_clitics item wm cset cm pm = r"
            using nin npm inner Some by (subst split_clitics.simps) simp
          ultimately show ?thesis by (simp add: content_def)
        qed
      qed
    qed
  qed
qed

text \<open>With the compound markers \<^verbatim>\<open>^-\<close> the expression is \<^verbatim>\<open>[^-]\<close>, which matches every
  character but the hyphen: \<^verbatim>\<open>a-b\<close> is split into an empty piece, the hyphen and another
  empty piece, and the letters are lost.\<close>

theorem split_clitics_content_counterexample:
  "split_clitics ''a-b'' Map.empty {} [CHR 0x27] ''^-'' = ['''', ''-'', '''']
   \<and> content [CHR 0x27] ''^-'' (concat ['''', ''-'', '''']) = ''''
   \<and> content [CHR 0x27] ''^-'' ''a-b'' = ''ab''"
  by (simp add: split_clitics.simps any_in_def class_matches_def content_def)

text \<open>The theorem at the usual markers, on the word \<^verbatim>\<open>a-cat's-b\<close>.\<close>

theorem split_clitics_content_witness:
  "regex_plain [CHR 0x27] \<and> regex_plain ''-''
   \<and> split_clitics (''a-cat'' @ apostrophe_s @ ''-b'') [''cat'' \<mapsto> 1, apostrophe_s \<mapsto> 2]
        {apostrophe_s} [CHR 0x27] ''-''
       = [''a'', ''cat'', apostrophe_s, ''b'']
   \<and> content [CHR 0x27] ''-'' (concat [''a'', ''cat'', apostrophe_s, ''b'']) = ''acatsb''
   \<and> content [CHR 0x27] ''-'' (''a-cat'' @ apostrophe_s @ ''-b'') = ''acatsb''"
proof -
  have p1: "regex_plain [CHR 0x27]" and p2: "regex_plain ''-''"
    by (simp_all add: regex_plain_def)
  from split_clitics_content [OF p1 p2, of "''a-cat'' @ apostrophe_s @ ''-b''"
      "[''cat'' \<mapsto> 1, apostrophe_s \<mapsto> 2]" "{apostrophe_s}"] p1 p2
  show ?thesis
    by (simp add: split_clitics.simps any_in_def class_matches_def re_split1_def content_def
        apostrophe_s_def)
qed

section \<open>Properties of the interval parser\<close>

lemmas line_defs = process_ctm_line_def index_def decimal_value_def unsigned_decimal_def
  digit_val_def exact_round4_def round_half_even_def



text \<open>
  Claim C6, as amended. The claim as stated fails on a line with more than five fields,
  which parses: the code reads the fields 0, 2, 3 and 4 and never looks at the count.
  What holds, with the fields cut at every single space: a line with fewer than five
  fields fails, with \<^verbatim>\<open>IndexError\<close> or (when a numeric field that is present does not
  parse) \<^verbatim>\<open>ValueError\<close>; a line with five fields or more whose third and fourth fields
  parse as numbers succeeds, and the interval is built from its first five fields.
\<close>

theorem process_ctm_line_fields:
  "(length (split_on CHR '' '' line) < 5 \<longrightarrow>
      process_ctm_line pyfloat pyround fadd line = Inl IndexError
      \<or> process_ctm_line pyfloat pyround fadd line = Inl ValueError)
   \<and> (5 \<le> length (split_on CHR '' '' line)
        \<and> pyfloat (split_on CHR '' '' line ! 2) = Some x
        \<and> pyfloat (split_on CHR '' '' line ! 3) = Some d \<longrightarrow>
      process_ctm_line pyfloat pyround fadd line =
        Inr \<lparr>ctm_begin = pyround x, ctm_end = pyround (fadd (pyround x) d),
             ctm_label = split_on CHR '' '' line ! 4,
             utterance = Some (split_on CHR '' '' line ! 0)\<rparr>)"
  by (auto simp: process_ctm_line_def index_def Let_def split: option.splits)

text \<open>A line of six fields parses, the sixth field ignored. Its numbers are 2, 0.5 and
  2.5, on which the exact operations are those of Python.\<close>

theorem process_ctm_line_fields_counterexample:
  "length (split_on CHR '' '' ''u 1 2.0000 0.5000 5 x'') = 6
   \<and> process_ctm_line decimal_value exact_round4 (+) ''u 1 2.0000 0.5000 5 x''
       = Inr \<lparr>ctm_begin = 2, ctm_end = 5 / 2, ctm_label = ''5'', utterance = Some ''u''\<rparr>"
  by (simp add: line_defs)

theorem process_ctm_line_fields_witness:
  "length (split_on CHR '' '' ''u 1 2.0000 0.5000'') = 4
   \<and> process_ctm_line decimal_value exact_round4 (+) ''u 1 2.0000 0.5000'' = Inl IndexError
   \<and> length (split_on CHR '' '' ''u 1 2.0000 0.5000 5 x'') = 6
   \<and> decimal_value (split_on CHR '' '' ''u 1 2.0000 0.5000 5 x'' ! 2) = Some 2
   \<and> decimal_value (split_on CHR '' '' ''u 1 2.0000 0.5000 5 x'' ! 3) = Some (1 / 2)
   \<and> process_ctm_line decimal_value exact_round4 (+) ''u 1 2.0000 0.5000 5 x''
       = Inr \<lparr>ctm_begin = exact_round4 2, ctm_end = exact_round4 (exact_round4 2 + 1 / 2),
              ctm_label = ''5'', utterance = Some ''u''\<rparr>"
  using process_ctm_line_fields [of "''u 1 2.0000 0.5000''" decimal_value exact_round4 "(+)"]
    process_ctm_line_fields [of "''u 1 2.0000 0.5000 5 x''" decimal_value exact_round4 "(+)"
      2 "1 / 2"]
  by (simp add: line_defs)

section \<open>Properties of the lookup\<close>

text \<open>
  Claim C5. For every word that is not in the vocabulary, neither as it is nor sanitized,
  \<^verbatim>\<open>_lookup\<close> returns the split made by \<^verbatim>\<open>split_clitics\<close> when the number of its tokens
  that are out of the vocabulary is strictly less than the number of its tokens, and
  otherwise the list holding just the sanitized word, which is out of the vocabulary.
\<close>

theorem lookup_accepts_split:
  assumes "item \<notin> dom wm" and "sanitize item punct cm \<notin> dom wm"
  shows "lookup sanitize item wm punct cset cm pm =
           (if length (filter (\<lambda>x. x \<notin> dom wm)
                  (split_clitics (sanitize item punct cm) wm cset cm pm))
               < length (split_clitics (sanitize item punct cm) wm cset cm pm)
            then split_clitics (sanitize item punct cm) wm cset cm pm
            else [sanitize item punct cm])"
  using assms by (simp add: lookup_def Let_def)

lemma split_clitics_cats:
  "split_clitics cats (words_mapping example_dictionary) (clitic_set example_dictionary)
     (clitic_markers example_dictionary) (compound_markers example_dictionary)
   = [''cat'', apostrophe_s]"
  by (simp add: example_defs split_clitics.simps any_in_def class_matches_def re_split1_def)

lemma split_clitics_dogs:
  "split_clitics ''dogs'' (words_mapping example_dictionary) (clitic_set example_dictionary)
     (clitic_markers example_dictionary) (compound_markers example_dictionary)
   = [''dogs'']"
  by (simp add: example_defs split_clitics.simps any_in_def class_matches_def)

theorem lookup_accepts_split_witness:
  "cats \<notin> dom (words_mapping example_dictionary)
   \<and> sanitize_spec cats (punctuation example_dictionary) (clitic_markers example_dictionary) = cats
   \<and> lookup sanitize_spec cats (words_mapping example_dictionary) (punctuation example_dictionary)
        (clitic_set example_dictionary) (clitic_markers example_dictionary)
        (compound_markers example_dictionary) = [''cat'', apostrophe_s]
   \<and> ''dogs'' \<notin> dom (words_mapping example_dictionary)
   \<and> sanitize_spec ''dogs'' (punctuation example_dictionary) (clitic_markers example_dictionary)
       = ''dogs''
   \<and> lookup sanitize_spec ''dogs'' (words_mapping example_dictionary)
        (punctuation example_dictionary) (clitic_set example_dictionary)
        (clitic_markers example_dictionary) (compound_markers example_dictionary) = [''dogs'']"
proof -
  let ?d = example_dictionary
  have s1: "sanitize_spec cats (punctuation ?d) (clitic_markers ?d) = cats"
    by (simp add: example_defs)
  have n1: "cats \<notin> dom (words_mapping ?d)" by (simp add: example_defs)
  have s2: "sanitize_spec ''dogs'' (punctuation ?d) (clitic_markers ?d) = ''dogs''"
    by (simp add: example_defs)
  have n2: "''dogs'' \<notin> dom (words_mapping ?d)" by (simp add: example_defs)
  have w1: "filter (\<lambda>x. x \<notin> dom (words_mapping ?d)) [''cat'', apostrophe_s] = []"
    by (simp add: example_defs)
  have w2: "filter (\<lambda>x. x \<notin> dom (words_mapping ?d)) [''dogs''] = [''dogs'']"
    by (simp add: example_defs)
  have "lookup sanitize_spec cats (words_mapping ?d) (punctuation ?d) (clitic_set ?d)
          (clitic_markers ?d) (compound_markers ?d) = [''cat'', apostrophe_s]"
    using lookup_accepts_split [of cats "words_mapping ?d" sanitize_spec "punctuation ?d"
        "clitic_markers ?d" "clitic_set ?d" "compound_markers ?d"] n1
    unfolding s1 split_clitics_cats w1 by simp
  moreover have "lookup sanitize_spec ''dogs'' (words_mapping ?d) (punctuation ?d) (clitic_set ?d)
          (clitic_markers ?d) (compound_markers ?d) = [''dogs'']"
    using lookup_accepts_split [of "''dogs''" "words_mapping ?d" sanitize_spec "punctuation ?d"
        "clitic_markers ?d" "clitic_set ?d" "compound_markers ?d"] n2
    unfolding s2 split_clitics_dogs w2 by simp
  ultimately show ?thesis using s1 s2 n1 n2 by blast
qed

section \<open>Properties of the phone remapper\<close>

lemma relabel_ok_refl: "relabel_ok ds origs x x"
  by (simp add: relabel_ok_def)

lemma drop_eq_nth:
  assumes "drop n xs = drop n ys" and "n < length xs"
  shows "xs ! n = ys ! n \<and> n < length ys \<and> drop (Suc n) xs = drop (Suc n) ys"
proof -
  from assms have len: "length xs - n = length ys - n" by (metis length_drop)
  with assms(2) have n: "n < length ys" by simp
  have "xs ! n = hd (drop n xs)" using assms(2) by (simp add: hd_drop_conv_nth)
  also have "\<dots> = hd (drop n ys)" using assms(1) by simp
  also have "\<dots> = ys ! n" using n by (simp add: hd_drop_conv_nth)
  finally have "xs ! n = ys ! n" .
  moreover have "drop (Suc n) xs = drop (Suc n) ys"
    using assms(1) by (metis drop_Suc tl_drop)
  ultimately show ?thesis using n by simp
qed

lemma original_loop_relabel:
  assumes "original_loop ds os (cur, np, mi) = ((cur', np', mi'), err)"
    and "set os \<subseteq> origs"
    and "list_all2 (relabel_ok ds origs) ph0 cur"
    and "drop mi cur = drop mi ph0"
  shows "list_all2 (relabel_ok ds origs) ph0 cur' \<and> drop mi' cur' = drop mi' ph0"
  using assms
proof (induction os arbitrary: cur np mi)
  case Nil
  then show ?case by simp
next
  case (Cons p os)
  note run = Cons.prems(1)
  from Cons.prems(2) have p: "p \<in> origs" and os: "set os \<subseteq> origs" by simp_all
  note inv = Cons.prems(3)
  note dr = Cons.prems(4)
  show ?case
  proof (cases "length cur \<le> mi")
    case True
    with run inv dr show ?thesis by simp
  next
    case False
    then have lt: "mi < length cur" by simp
    from drop_eq_nth [OF dr lt] have same: "cur ! mi = ph0 ! mi" and lt0: "mi < length ph0"
      and dr1: "drop (Suc mi) cur = drop (Suc mi) ph0" by simp_all
    have dr2: "drop (Suc (Suc mi)) cur = drop (Suc (Suc mi)) ph0"
      using dr1 by (metis drop_Suc tl_drop)
    show ?thesis
    proof (cases "p = ctm_label (cur ! mi)")
      case True
      with run lt have "original_loop ds os (cur, np @ [cur ! mi], mi + 1) = ((cur', np', mi'), err)"
        by simp
      from Cons.IH [OF this os inv] dr1 show ?thesis by simp
    next
      case ne: False
      show ?thesis
      proof (cases "strip_all ds p = ctm_label (cur ! mi)")
        case True
        let ?new = "(cur ! mi)\<lparr>ctm_label := p\<rparr>"
        from run lt ne True
        have r: "original_loop ds os (cur[mi := ?new], np @ [?new], mi + 1) = ((cur', np', mi'), err)"
          by (simp add: Let_def)
        have ok: "relabel_ok ds origs (ph0 ! mi) ?new"
          using p True same by (simp add: relabel_ok_def)
        have "list_all2 (relabel_ok ds origs) (ph0[mi := ph0 ! mi]) (cur[mi := ?new])"
          using inv ok by (rule list_all2_update_cong)
        then have inv': "list_all2 (relabel_ok ds origs) ph0 (cur[mi := ?new])" by simp
        have dr': "drop (mi + 1) (cur[mi := ?new]) = drop (mi + 1) ph0"
          using dr1 by simp
        from Cons.IH [OF r os inv' dr'] show ?thesis .
      next
        case ns: False
        show ?thesis
        proof (cases "mi \<noteq> length cur - 1
            \<and> strip_all ds p = ctm_label (cur ! mi) @ ctm_label (cur ! (mi + 1))")
          case True
          with run lt ne ns obtain np2 where
            "original_loop ds os (cur, np2, mi + 1 + 1) = ((cur', np', mi'), err)"
            by (simp add: Let_def)
          from Cons.IH [OF this os inv] dr2 show ?thesis by simp
        next
          case False
          with run lt ne ns
          have "original_loop ds os (cur, np, mi + 1) = ((cur', np', mi'), err)"
            by (auto simp: Let_def split: if_splits)
          from Cons.IH [OF this os inv] dr1 show ?thesis by simp
        qed
      qed
    qed
  qed
qed

lemma select_pron_mem:
  "select_pron tr ti ps pron = (w, Some p) \<Longrightarrow> p \<in> set ps \<or> pron = Some p"
proof (induction ps arbitrary: pron)
  case Nil
  then show ?case by simp
next
  case (Cons q ps)
  then show ?case by (fastforce split: if_splits)
qed

lemma original_phones_Cons:
  "original_phones subs \<subseteq> original_phones (ps # subs)"
  by (auto simp: original_phones_def)

lemma original_phones_mem:
  "p \<in> set ps \<Longrightarrow> original_pronunciation p = Some os \<Longrightarrow> set os \<subseteq> original_phones (ps # subs)"
  by (force simp: original_phones_def)

lemma subwords_loop_relabel:
  assumes "list_all2 (relabel_ok ds origs) ph0 cur"
    and "drop mi cur = drop mi ph0"
    and "original_phones subs \<subseteq> origs"
  shows "list_all2 (relabel_ok ds origs) ph0 (fst (subwords_loop ds tr subs (cur, np, mi, ti)))"
  using assms
proof (induction subs arbitrary: cur np mi ti)
  case Nil
  then show ?case by simp
next
  case (Cons ps subs)
  note inv = Cons.prems(1)
  note dr = Cons.prems(2)
  from Cons.prems(3) original_phones_Cons have sub: "original_phones subs \<subseteq> origs" by blast
  show ?case
  proof (cases "length cur \<le> mi")
    case True
    with inv show ?thesis by simp
  next
    case lt: False
    obtain w pron where sel: "select_pron tr ti ps None = (w, pron)" by (cases "select_pron tr ti ps None")
    show ?thesis
    proof (cases "w \<or> pron = None")
      case True
      with lt sel inv show ?thesis by (cases w; cases pron) auto
    next
      case False
      then obtain p where w: "\<not> w" and pron: "pron = Some p" by auto
      from select_pron_mem sel pron have mem: "p \<in> set ps" by fastforce
      show ?thesis
      proof (cases "original_pronunciation p = None \<or> Some (pronunciation p) = original_pronunciation p")
        case True
        with lt sel w pron inv show ?thesis by (simp add: Let_def)
      next
        case orig: False
        then obtain os where os: "original_pronunciation p = Some os" by auto
        from original_phones_mem [OF mem os] Cons.prems(3) have oss: "set os \<subseteq> origs" by blast
        obtain cur' np' mi' err where
          ol: "original_loop ds os (cur, np, mi) = ((cur', np', mi'), err)"
          by (metis prod_cases3 surj_pair)
        from original_loop_relabel [OF ol oss inv dr]
        have inv': "list_all2 (relabel_ok ds origs) ph0 cur'" and dr': "drop mi' cur' = drop mi' ph0"
          by simp_all
        show ?thesis
        proof (cases err)
          case None
          have "fst (subwords_loop ds tr (ps # subs) (cur, np, mi, ti))
                = fst (subwords_loop ds tr subs (cur', np', mi', ti + length (pronunciation p)))"
            using lt sel w pron orig os ol None by (simp add: Let_def)
          then show ?thesis using Cons.IH [OF inv' dr' sub] by simp
        next
          case (Some e)
          have "fst (subwords_loop ds tr (ps # subs) (cur, np, mi, ti)) = cur'"
            using lt sel w pron orig os ol Some by (simp add: Let_def)
          then show ?thesis using inv' by simp
        qed
      qed
    qed
  qed
qed

text \<open>
  Claim C9. Whatever \<^verbatim>\<open>map_to_original_pronunciation\<close> does, an interval of the aligned
  phones that it relabels in place keeps its times and utterance, gets as label a phone of
  an original pronunciation of a candidate entry, and stripping all configured diacritics
  from that new label gives exactly the label the interval had before. (A merge builds a
  new interval and changes none of the aligned ones.)
\<close>

theorem relabel_strips_to_aligned:
  "list_all2 (relabel_ok strip_diacritics (original_phones subpronunciations)) phones
     (fst (map_to_original_pronunciation phones subpronunciations strip_diacritics))"
  unfolding map_to_original_pronunciation_def
  by (rule subwords_loop_relabel) (simp_all add: list_all2_refl relabel_ok_refl)

text \<open>The theorem at an entry whose first original phone carries a diacritic: the aligned
  phone \<^verbatim>\<open>t\<close> is relabelled \<^verbatim>\<open>t_d\<close>.\<close>

theorem relabel_strips_to_aligned_witness:
  "fst (map_to_original_pronunciation [entry 0 1 ''t'', entry 1 2 ''a'']
          [[pron_entry [''t'', ''a''] (Some [''t_d'', ''a''])]] [''_d''])
     = [entry 0 1 ''t_d'', entry 1 2 ''a'']
   \<and> relabel_ok [''_d''] (original_phones [[pron_entry [''t'', ''a''] (Some [''t_d'', ''a''])]])
        (entry 0 1 ''t'') (entry 0 1 ''t_d'')
   \<and> strip_all [''_d''] ''t_d'' = ''t''"
  using relabel_strips_to_aligned [of "[''_d'']" "[[pron_entry [''t'', ''a''] (Some [''t_d'', ''a''])]]"
      "[entry 0 1 ''t'', entry 1 2 ''a'']"]
  by (simp add: map_to_original_pronunciation_def pron_entry_def entry_def relabel_ok_def Let_def
      original_phones_def)

text \<open>
  Claim C2 does not hold of the code. A word of two sub-words, \<^verbatim>\<open>cat\<close> and \<^verbatim>\<open>s\<close>, each with
  one entry whose original pronunciation equals its pronunciation, aligned to the phones
  \<^verbatim>\<open>k a t s\<close>: the entry of the first sub-word is a prefix of the transcription, its three
  phones are copied, and the \<^verbatim>\<open>break\<close> that follows leaves the loop over the sub-words,
  so the phone \<^verbatim>\<open>s\<close> is dropped. And an entry whose original pronunciation is longer than
  the aligned phones makes \<^verbatim>\<open>phones[mapping_ind]\<close> raise \<^verbatim>\<open>IndexError\<close>.
\<close>

theorem map_to_original_pronunciation_drops_phones:
  "snd (map_to_original_pronunciation
          [entry 0 1 ''k'', entry 1 2 ''a'', entry 2 3 ''t'', entry 3 4 ''s'']
          [[pron_entry [''k'', ''a'', ''t''] (Some [''k'', ''a'', ''t''])],
           [pron_entry [''s''] (Some [''s''])]] [])
     = Inr [entry 0 1 ''k'', entry 1 2 ''a'', entry 2 3 ''t'']
   \<and> snd (map_to_original_pronunciation [entry 0 1 ''a'']
          [[pron_entry [''a''] (Some [''a'', ''b''])]] [])
     = Inl IndexError"
  by (simp add: map_to_original_pronunciation_def pron_entry_def entry_def)

section \<open>Properties of the exporter\<close>

lemma snap_idem: "snap fsub dur fs (snap fsub dur fs c) = snap fsub dur fs c"
  by (simp add: snap_def)

lemma snap_loop_eq:
  "snap_loop fsub dur fs ws (h, tg) =
     (\<lambda>a. if a \<in> set ws then snap fsub dur fs (h a) else h a,
      tg @ map (\<lambda>a. to_tg_interval (snap fsub dur fs (h a))) ws)"
proof (induction ws arbitrary: h tg)
  case Nil
  then show ?case by simp
next
  case (Cons w ws)
  let ?h = "h(w := snap fsub dur fs (h w))"
  have step: "snap_loop fsub dur fs (w # ws) (h, tg)
              = snap_loop fsub dur fs ws (?h, tg @ [to_tg_interval (?h w)])"
    by (simp add: snap_def Let_def)
  have heap: "(\<lambda>a. if a \<in> set ws then snap fsub dur fs (?h a) else ?h a)
            = (\<lambda>a. if a \<in> set (w # ws) then snap fsub dur fs (h a) else h a)"
    by (auto simp: fun_eq_iff snap_idem)
  have tg: "map (\<lambda>a. to_tg_interval (snap fsub dur fs (?h a))) ws
          = map (\<lambda>a. to_tg_interval (snap fsub dur fs (h a))) ws"
    by (simp add: snap_idem)
  show ?case unfolding step Cons.IH heap tg by (simp add: snap_idem)
qed

lemma snapped_refs_twice:
  "snapped_refs fsub dur fs B (snapped_refs fsub dur fs A h) = snapped_refs fsub dur fs (A \<union> B) h"
  by (auto simp: snapped_refs_def fun_eq_iff snap_idem)

lemma snap_snapped_refs: "snap fsub dur fs (snapped_refs fsub dur fs A h a) = snap fsub dur fs (h a)"
  by (simp add: snapped_refs_def snap_idem)

lemma speakers_loop_eq:
  "speakers_loop fsub file fs sd (h, tiers) =
     (snapped_refs fsub (duration file) fs (interval_refs sd) h,
      tiers @ tiers_of file (\<lambda>a. snap fsub (duration file) fs (h a)) sd)"
proof (induction sd arbitrary: h tiers)
  case Nil
  then show ?case by (simp add: interval_refs_def tiers_of_def snapped_refs_def)
next
  case (Cons s sd)
  obtain speaker words phones where s: "s = (speaker, words, phones)" by (cases s)
  let ?d = "duration file"
  let ?h1 = "snapped_refs fsub ?d fs (set words) h"
  let ?h2 = "snapped_refs fsub ?d fs (set words \<union> set phones) h"
  have w: "snap_loop fsub ?d fs words (h, []) = (?h1, map (\<lambda>a. to_tg_interval (snap fsub ?d fs (h a))) words)"
    by (simp add: snap_loop_eq snapped_refs_def)
  have p: "snap_loop fsub ?d fs phones (?h1, [])
           = (?h2, map (\<lambda>a. to_tg_interval (snap fsub ?d fs (h a))) phones)"
    by (simp add: snap_loop_eq snapped_refs_twice snap_snapped_refs
        snapped_refs_def [of fsub ?d fs "set phones" ?h1, symmetric])
  have refs: "interval_refs (s # sd) = (set words \<union> set phones) \<union> interval_refs sd"
    by (simp add: interval_refs_def s)
  have t: "tiers_of file (\<lambda>a. snap fsub ?d fs (h a)) (s # sd)
         = [(fst (tier_names file speaker), map (\<lambda>a. to_tg_interval (snap fsub ?d fs (h a))) words),
            (snd (tier_names file speaker), map (\<lambda>a. to_tg_interval (snap fsub ?d fs (h a))) phones)]
           @ tiers_of file (\<lambda>a. snap fsub ?d fs (h a)) sd"
    by (simp add: tiers_of_def s)
  have t2: "tiers_of file (\<lambda>a. snap fsub ?d fs (?h2 a)) sd = tiers_of file (\<lambda>a. snap fsub ?d fs (h a)) sd"
    by (simp add: snap_snapped_refs)
  show ?case
    unfolding s speakers_loop.simps w p prod.case Cons.IH snapped_refs_twice t2
    using refs t by (simp add: s)
qed

lemma tiers_of_cong:
  "(\<And>a. a \<in> interval_refs sd \<Longrightarrow> f a = g a) \<Longrightarrow> tiers_of file f sd = tiers_of file g sd"
proof -
  assume eq: "\<And>a. a \<in> interval_refs sd \<Longrightarrow> f a = g a"
  have "f a = g a" if "(speaker, words, phones) \<in> set sd" "a \<in> set words \<union> set phones"
    for speaker words phones a
    using that by (intro eq) (force simp: interval_refs_def)
  then show ?thesis
    unfolding tiers_of_def by (intro arg_cong [where f = concat] map_cong) auto
qed

lemma export_textgrid_eq:
  "export_textgrid pyround fdiv fsub file sd frame_shift h =
     (snapped_refs fsub (duration file) (frame_shift_seconds pyround fdiv frame_shift) (interval_refs sd) h,
      tiers_of file (snapped_refs fsub (duration file) (frame_shift_seconds pyround fdiv frame_shift)
                       (interval_refs sd) h) sd)"
proof -
  have "tiers_of file (\<lambda>a. snap fsub (duration file) (frame_shift_seconds pyround fdiv frame_shift) (h a)) sd
      = tiers_of file (snapped_refs fsub (duration file) (frame_shift_seconds pyround fdiv frame_shift)
                       (interval_refs sd) h) sd"
    by (rule tiers_of_cong) (simp add: snapped_refs_def)
  then show ?thesis by (simp add: export_textgrid_def speakers_loop_eq)
qed

text \<open>
  Claim C10. \<^verbatim>\<open>export_textgrid\<close> changes its caller's interval objects: after a call that
  returns, every object that \<^verbatim>\<open>speaker_data\<close> refers to and for which the source's test
  \<^verbatim>\<open>file.duration - w.end < frame_shift\<close> holds (its end is less than the frame shift
  below the duration of the file, or beyond it) has its end set to that duration, every
  other field of it is as before, and every other object is untouched; the tiers handed
  to the textgrid library hold the intervals as they are after the call, so the ends are
  overwritten before they are serialised. This holds also when an object occurs in
  several lists, and whatever the float operations compute.
\<close>

theorem export_textgrid_overwrites_end:
  "fst (export_textgrid pyround fdiv fsub file speaker_data frame_shift h) a =
     (if a \<in> interval_refs speaker_data
         \<and> fsub (duration file) (ctm_end (h a)) < frame_shift_seconds pyround fdiv frame_shift
      then (h a)\<lparr>ctm_end := duration file\<rparr> else h a)
   \<and> ctm_begin (fst (export_textgrid pyround fdiv fsub file speaker_data frame_shift h) a)
       = ctm_begin (h a)
   \<and> ctm_label (fst (export_textgrid pyround fdiv fsub file speaker_data frame_shift h) a)
       = ctm_label (h a)
   \<and> utterance (fst (export_textgrid pyround fdiv fsub file speaker_data frame_shift h) a)
       = utterance (h a)
   \<and> snd (export_textgrid pyround fdiv fsub file speaker_data frame_shift h)
       = tiers_of file (fst (export_textgrid pyround fdiv fsub file speaker_data frame_shift h))
           speaker_data"
  by (simp add: export_textgrid_eq snapped_refs_def snap_def)

text \<open>Concrete runs, at a frame shift of 125 milliseconds: 125 / 1000 is 0.125, a binary
  fraction and a multiple of 1/10000, and the differences are 0.0625, 0.5 and 5.\<close>

lemma frame_shift_seconds_125: "frame_shift_seconds exact_round4 (/) 125 = 1 / 8"
  by (simp add: frame_shift_seconds_def exact_round4_def round_half_even_def)

theorem export_textgrid_overwrites_end_witness:
  "fst (export_textgrid exact_round4 (/) (-) example_file
          [(''spk1'', [0], [1, 2]), (''spk2'', [0], [])] 125 example_store) 0
     = \<lparr>ctm_begin = 9, ctm_end = 10, ctm_label = ''cat'', utterance = Some ''u''\<rparr>
   \<and> fst (export_textgrid exact_round4 (/) (-) example_file
          [(''spk1'', [0], [1, 2]), (''spk2'', [0], [])] 125 example_store) 1
     = \<lparr>ctm_begin = 9, ctm_end = 19 / 2, ctm_label = ''k'', utterance = Some ''u''\<rparr>
   \<and> snd (export_textgrid exact_round4 (/) (-) example_file
          [(''spk1'', [0], [1, 2]), (''spk2'', [0], [])] 125 example_store)
     = [(''spk1 - words'', [(9, 10, ''cat'')]),
        (''spk1 - phones'', [(9, 19 / 2, ''k''), (19 / 2, 10, ''t'')]),
        (''spk2 - words'', [(9, 10, ''cat'')]),
        (''spk2 - phones'', [])]"
  using export_textgrid_overwrites_end [of exact_round4 "(/)" "(-)" example_file
      "[(''spk1'', [0], [1, 2]), (''spk2'', [0], [])]" 125 example_store 0]
    export_textgrid_overwrites_end [of exact_round4 "(/)" "(-)" example_file
      "[(''spk1'', [0], [1, 2]), (''spk2'', [0], [])]" 125 example_store 1]
    export_textgrid_overwrites_end [of exact_round4 "(/)" "(-)" example_file
      "[(''spk1'', [0], [1, 2]), (''spk2'', [0], [])]" 125 example_store 2]
  by (simp add: frame_shift_seconds_125 interval_refs_def tiers_of_def tier_names_def
      to_tg_interval_def example_file_def example_store_def entry_def)

text \<open>
  Claim C4. \<^verbatim>\<open>export_textgrid\<close> takes a frame shift above 1 as milliseconds: the threshold
  it works with is then \<^verbatim>\<open>round(frame_shift / 1000, 4)\<close>, and the frame shift itself
  otherwise, so that exporting with a frame shift in milliseconds is exporting with that
  number of seconds. After an export that returns, an interval of \<^verbatim>\<open>speaker_data\<close> ends at
  the duration of the file exactly when the source's test
  \<^verbatim>\<open>file.duration - w.end < frame_shift\<close> held of it with that threshold, or it ended
  there already. In particular, where the float subtraction is exact, an interval whose
  end was less than the threshold away from the duration ends at the duration, and no
  interval is left with an end that is less than the threshold away from the duration
  and differs from it.
\<close>

theorem export_textgrid_snaps_to_duration:
  assumes "a \<in> interval_refs speaker_data"
  shows "ctm_end (fst (export_textgrid pyround fdiv fsub file speaker_data frame_shift h) a)
           = (if fsub (duration file) (ctm_end (h a))
                   < (if 1 < frame_shift then pyround (fdiv frame_shift 1000) else frame_shift)
              then duration file else ctm_end (h a))
       \<and> (1 < frame_shift \<and> \<not> 1 < pyround (fdiv frame_shift 1000) \<longrightarrow>
            export_textgrid pyround fdiv fsub file speaker_data frame_shift h
              = export_textgrid pyround fdiv fsub file speaker_data
                  (pyround (fdiv frame_shift 1000)) h)
       \<and> (fsub (duration file) (ctm_end (h a)) = duration file - ctm_end (h a)
            \<and> \<bar>duration file - ctm_end (h a)\<bar>
                < (if 1 < frame_shift then pyround (fdiv frame_shift 1000) else frame_shift) \<longrightarrow>
          ctm_end (fst (export_textgrid pyround fdiv fsub file speaker_data frame_shift h) a)
            = duration file)
       \<and> (fsub (duration file) (ctm_end (h a)) = duration file - ctm_end (h a)
            \<and> \<bar>duration file
                 - ctm_end (fst (export_textgrid pyround fdiv fsub file speaker_data frame_shift h) a)\<bar>
                < (if 1 < frame_shift then pyround (fdiv frame_shift 1000) else frame_shift) \<longrightarrow>
          ctm_end (fst (export_textgrid pyround fdiv fsub file speaker_data frame_shift h) a)
            = duration file)"
proof -
  let ?thr = "if 1 < frame_shift then pyround (fdiv frame_shift 1000) else frame_shift"
  let ?h' = "fst (export_textgrid pyround fdiv fsub file speaker_data frame_shift h)"
  have thr: "frame_shift_seconds pyround fdiv frame_shift = ?thr"
    by (simp add: frame_shift_seconds_def)
  have h': "?h' a = snap fsub (duration file) ?thr (h a)"
    using assms by (simp add: export_textgrid_eq snapped_refs_def thr)
  have exact: "ctm_end (?h' a)
      = (if fsub (duration file) (ctm_end (h a)) < ?thr then duration file else ctm_end (h a))"
    unfolding h' by (simp add: snap_def)
  have same: "1 < frame_shift \<and> \<not> 1 < pyround (fdiv frame_shift 1000) \<longrightarrow>
      export_textgrid pyround fdiv fsub file speaker_data frame_shift h
        = export_textgrid pyround fdiv fsub file speaker_data (pyround (fdiv frame_shift 1000)) h"
    by (simp add: export_textgrid_def frame_shift_seconds_def)
  have pre: "fsub (duration file) (ctm_end (h a)) = duration file - ctm_end (h a)
      \<and> \<bar>duration file - ctm_end (h a)\<bar> < ?thr \<longrightarrow> ctm_end (?h' a) = duration file"
    unfolding exact by (auto simp: abs_if split: if_splits)
  have post: "fsub (duration file) (ctm_end (h a)) = duration file - ctm_end (h a)
      \<and> \<bar>duration file - ctm_end (?h' a)\<bar> < ?thr \<longrightarrow> ctm_end (?h' a) = duration file"
    unfolding exact by (auto simp: abs_if split: if_splits)
  show ?thesis using exact same pre post by blast
qed

text \<open>The theorem at the frame shift 125: the word that ends 0.0625 s before the end of
  the file is moved to the end, the one that ends 5 s before it is not.\<close>

theorem export_textgrid_snaps_to_duration_witness:
  "(0 :: nat) \<in> interval_refs [(''spk1'', [0, 3], [1, 2])]
   \<and> (3 :: nat) \<in> interval_refs [(''spk1'', [0, 3], [1, 2])]
   \<and> exact_round4 (125 / 1000) = 1 / 8
   \<and> ctm_end (example_store 0) = 159 / 16
   \<and> ctm_end (fst (export_textgrid exact_round4 (/) (-) example_file
                     [(''spk1'', [0, 3], [1, 2])] 125 example_store) 0) = 10
   \<and> ctm_end (example_store 3) = 5
   \<and> ctm_end (fst (export_textgrid exact_round4 (/) (-) example_file
                     [(''spk1'', [0, 3], [1, 2])] 125 example_store) 3) = 5
   \<and> export_textgrid exact_round4 (/) (-) example_file [(''spk1'', [0, 3], [1, 2])] 125 example_store
       = export_textgrid exact_round4 (/) (-) example_file [(''spk1'', [0, 3], [1, 2])] (1 / 8)
           example_store"
proof -
  let ?sd = "[(''spk1'', [0, 3], [1, 2])] :: speaker_data"
  have r0: "(0 :: nat) \<in> interval_refs ?sd" and r3: "(3 :: nat) \<in> interval_refs ?sd"
    by (simp_all add: interval_refs_def)
  have thr: "exact_round4 (125 / 1000) = 1 / 8"
    by (simp add: exact_round4_def round_half_even_def)
  have s0: "ctm_end (example_store 0) = 159 / 16" and s3: "ctm_end (example_store 3) = 5"
    by (simp_all add: example_store_def entry_def)
  have d: "duration example_file = 10" by (simp add: example_file_def)
  note t0 = export_textgrid_snaps_to_duration [OF r0, of exact_round4 "(/)" "(-)" example_file 125
      example_store]
  note t3 = export_textgrid_snaps_to_duration [OF r3, of exact_round4 "(/)" "(-)" example_file 125
      example_store]
  have e0: "ctm_end (fst (export_textgrid exact_round4 (/) (-) example_file ?sd 125
                            example_store) 0) = 10"
    by (simp only: t0 [THEN conjunct1] thr s0 d) simp
  have e3: "ctm_end (fst (export_textgrid exact_round4 (/) (-) example_file ?sd 125
                            example_store) 3) = 5"
    by (simp only: t3 [THEN conjunct1] thr s3 d) simp
  have "(1 :: rat) < 125 \<and> \<not> 1 < exact_round4 (125 / 1000)" by (simp only: thr) simp
  with t0 [THEN conjunct2, THEN conjunct1]
  have "export_textgrid exact_round4 (/) (-) example_file ?sd 125 example_store
       = export_textgrid exact_round4 (/) (-) example_file ?sd (exact_round4 (125 / 1000))
           example_store"
    by blast
  then have eq: "export_textgrid exact_round4 (/) (-) example_file ?sd 125 example_store
       = export_textgrid exact_round4 (/) (-) example_file ?sd (1 / 8) example_store"
    by (simp only: thr)
  from r0 r3 thr s0 e0 s3 e3 eq show ?thesis by blast
qed

section \<open>Properties of the error collector\<close>

lemma files_loop_collect: "files_loop False calls errs = Inr (collect (failures calls) errs)"
  by (induction calls arbitrary: errs rule: failures.induct) simp_all

lemma collect_append: "collect (fs @ gs) errs = collect gs (collect fs errs)"
  by (induction fs errs rule: collect.induct) simp_all

lemma failures_append: "failures (xs @ ys) = failures xs @ failures ys"
  by (induction xs rule: failures.induct) simp_all

lemma jobs_loop_collect:
  "jobs_loop False jobs errs = Inr (collect (failures (concat jobs)) errs)"
  by (induction jobs arbitrary: errs)
     (simp_all add: files_loop_collect failures_append collect_append)

lemma map_of_dict_set: "map_of (dict_set errs n t) = (map_of errs)(n \<mapsto> t)"
  by (induction errs n t rule: dict_set.induct) (auto simp: fun_eq_iff)

lemma keys_dict_set: "fst ` set (dict_set errs n t) = insert n (fst ` set errs)"
  by (induction errs n t rule: dict_set.induct) auto

lemma distinct_dict_set:
  "distinct (map fst errs) \<Longrightarrow> distinct (map fst (dict_set errs n t))"
proof (induction errs n t rule: dict_set.induct)
  case (1 key v)
  then show ?case by simp
next
  case (2 k x rest key v)
  then show ?case using keys_dict_set [of rest key v] by (auto simp: image_iff)
qed

lemma dict_set_new: "n \<notin> fst ` set errs \<Longrightarrow> dict_set errs n t = errs @ [(n, t)]"
  by (induction errs n t rule: dict_set.induct) auto

lemma map_of_collect: "map_of (collect fs errs) = map_of errs ++ map_of (rev fs)"
proof (induction fs errs rule: collect.induct)
  case (1 errs)
  then show ?case by simp
next
  case (2 n t fs errs)
  have "map_of (collect ((n, t) # fs) errs) = map_of (dict_set errs n t) ++ map_of (rev fs)"
    using 2 by simp
  also have "\<dots> = (map_of errs)(n \<mapsto> t) ++ map_of (rev fs)"
    by (simp only: map_of_dict_set)
  also have "\<dots> = map_of errs ++ (map_of [(n, t)] ++ map_of (rev fs))"
    by (simp add: fun_eq_iff map_add_def split: option.splits)
  finally show ?case by simp
qed

lemma keys_collect: "fst ` set (collect fs errs) = fst ` set errs \<union> fst ` set fs"
  by (induction fs errs rule: collect.induct) (auto simp: keys_dict_set)

lemma distinct_collect:
  "distinct (map fst errs) \<Longrightarrow> distinct (map fst (collect fs errs))"
  by (induction fs errs rule: collect.induct) (simp_all add: distinct_dict_set)

lemma collect_distinct:
  "distinct (map fst (errs @ fs)) \<Longrightarrow> collect fs errs = errs @ fs"
proof (induction fs errs rule: collect.induct)
  case (1 errs)
  then show ?case by simp
next
  case (2 n t fs errs)
  from 2(2) have new: "n \<notin> fst ` set errs" by auto
  then have ds: "dict_set errs n t = errs @ [(n, t)]" by (rule dict_set_new)
  have "distinct (map fst (dict_set errs n t @ fs))" using 2(2) ds by simp
  from 2(1) [OF this] ds show ?case by simp
qed

lemma write_errors_Some:
  "write_errors errs (Some existing) = Some (existing @ concat (map report_entry errs))"
  by (induction errs arbitrary: existing) (auto simp: report_entry_def)

lemma write_errors_None:
  "write_errors errs None
     = (if errs = [] then None else Some (report_header @ concat (map report_entry errs)))"
  by (cases errs) (auto simp: write_errors_Some report_entry_def)

lemma output_errors_eq:
  "output_textgrid_writing_errors error_log errs
     = (if errs = [] then None else Some (report_header @ concat (map report_entry errs)))"
  by (simp add: output_textgrid_writing_errors_def write_errors_None)

text \<open>
  Claim C7. With the debug flag off, a batch in which some calls of the export raise runs
  to its end: no exception leaves \<^verbatim>\<open>ctms_to_textgrids_non_mp\<close>. Afterwards
  \<^verbatim>\<open>output_errors.txt\<close> does not depend on what it held before (a stale report is deleted);
  it exists exactly when a call raised, and then it is the header followed by one entry
  for each file with a failing call, the name of the file and the full error text of its
  last failing call. Each failing file is listed once; when the failing calls are of K
  different files, the entries are exactly those K calls, in order.
\<close>

theorem batch_reports_failures:
  "\<exists>errs. ctms_to_textgrids_non_mp False jobs error_log
             = (None, if errs = [] then None
                      else Some (report_header @ concat (map report_entry errs)))
        \<and> (errs = [] \<longleftrightarrow> failures (concat jobs) = [])
        \<and> distinct (map fst errs)
        \<and> fst ` set errs = fst ` set (failures (concat jobs))
        \<and> map_of errs = map_of (rev (failures (concat jobs)))
        \<and> (distinct (map fst (failures (concat jobs))) \<longrightarrow> errs = failures (concat jobs))"
proof -
  let ?fs = "failures (concat jobs)"
  let ?errs = "collect ?fs []"
  have run: "ctms_to_textgrids_non_mp False jobs error_log
             = (None, if ?errs = [] then None
                      else Some (report_header @ concat (map report_entry ?errs)))"
    by (simp add: ctms_to_textgrids_non_mp_def jobs_loop_collect output_errors_eq)
  have keys: "fst ` set ?errs = fst ` set ?fs" by (simp add: keys_collect)
  have empty: "?errs = [] \<longleftrightarrow> ?fs = []"
  proof
    assume "?errs = []"
    then have "fst ` set ?fs = {}" using keys by simp
    then show "?fs = []" by simp
  next
    assume "?fs = []"
    then show "?errs = []" by simp
  qed
  have dist: "distinct (map fst ?errs)" by (rule distinct_collect) simp
  have mp: "map_of ?errs = map_of (rev ?fs)" by (simp add: map_of_collect)
  have same: "distinct (map fst ?fs) \<longrightarrow> ?errs = ?fs"
    using collect_distinct [of "[]" ?fs] by simp
  from run empty dist keys mp same show ?thesis by blast
qed

text \<open>The theorem at a batch of two jobs and four files of which two fail, with a stale
  report in place, and at a batch without failures.\<close>

theorem batch_reports_failures_witness:
  "ctms_to_textgrids_non_mp False
      [[(''a'', None), (''b'', Some ''E1'')], [(''c'', Some ''E2''), (''d'', None)]] (Some ''stale'')
     = (None, Some (report_header @ report_entry (''b'', ''E1'') @ report_entry (''c'', ''E2'')))
   \<and> failures (concat [[(''a'', None), (''b'', Some ''E1'')], [(''c'', Some ''E2''), (''d'', None)]])
     = [(''b'', ''E1''), (''c'', ''E2'')]
   \<and> distinct (map fst [(''b'', ''E1''), (''c'', ''E2'')])
   \<and> ctms_to_textgrids_non_mp False [[(''a'', None)], [(''d'', None)]] (Some ''stale'')
     = (None, None)"
  using batch_reports_failures
      [of "[[(''a'', None), (''b'', Some ''E1'')], [(''c'', Some ''E2''), (''d'', None)]]"
          "Some ''stale''"]
  by (simp add: ctms_to_textgrids_non_mp_def output_textgrid_writing_errors_def report_entry_def)

end
